theory Spec2Isabelle
  imports Complex_Main "HOL-Library.Char_ord" "HOL-Library.List_Lexorder"
begin

section \<open>The values and plain objects of the program\<close>

text \<open>
  The program is JavaScript. Its numbers are IEEE doubles; they are modelled by
  naturals where the program counts and by reals elsewhere, so rounding and overflow are
  outside the model. A value that is \<open>NaN\<close> or \<open>undefined\<close> is \<open>None\<close> of an option type.
  A string is a list of characters; of a word, only its identity and, for the order of
  keys, its being a decimal numeral matter.

  \<open>countWords\<close> accumulates its counts in a plain object \<open>{}\<close>. Two rules of the
  language decide what that object does and are modelled here:
  \<^item> the own keys of an object are enumerated with the array indices first, in ascending
    numeric order, and the other strings after them, in the order of their creation;
  \<^item> \<open>key in object\<close> and \<open>object[key]\<close> also see the properties inherited from
    \<open>Object.prototype\<close>.
\<close>

subsection \<open>Array indices\<close>

definition is_digit :: "char \<Rightarrow> bool" where
  "is_digit c = (c \<in> set ''0123456789'')"

definition digit_value :: "char \<Rightarrow> nat" where
  "digit_value c = of_char c - 48"

definition decimal :: "string \<Rightarrow> nat" where
  "decimal s = foldl (\<lambda>n c. 10 * n + digit_value c) 0 s"

text \<open>
  A property key is an array index when it is the canonical decimal numeral of an integer
  from 0 to \<open>2^32 - 2\<close>: digits only, no leading zero unless the key is \<open>0\<close> itself.
\<close>

definition array_index :: "string \<Rightarrow> nat option" where
  "array_index s =
     (if s \<noteq> [] \<and> list_all is_digit s \<and> (hd s \<noteq> CHR ''0'' \<or> s = ''0'') \<and> decimal s < 2 ^ 32 - 1
      then Some (decimal s) else None)"

definition is_index :: "string \<Rightarrow> bool" where
  "is_index s = (array_index s \<noteq> None)"

subsection \<open>The values a count can hold\<close>

text \<open>
  A cell of the accumulator holds a number, or, for a key that \<open>Object.prototype\<close>
  already defines as a built-in function, a string: \<open>Native_text f k\<close> is the source
  text of the built-in function \<open>f\<close> followed by \<open>k\<close> characters \<open>1\<close> (the string
  \<open>function + 1\<close> that \<open>+=\<close> produces, and then extends).
\<close>

datatype count_value = Number nat | Native_text string nat

definition native_source :: "string \<Rightarrow> string" where
  "native_source f = ''function '' @ f @ ''() { [native code] }''"

definition text_of :: "string \<Rightarrow> nat \<Rightarrow> string" where
  "text_of f k = native_source f @ replicate k (CHR ''1'')"

text \<open>\<open>+v\<close>: the numeric value; the text of a function is not a numeral, so it is \<open>NaN\<close>.\<close>

definition to_number :: "count_value \<Rightarrow> real option" where
  "to_number v = (case v of Number n \<Rightarrow> Some (real n) | Native_text f k \<Rightarrow> None)"

text \<open>\<open>v + 1\<close>: addition on a number, concatenation of \<open>"1"\<close> on a string.\<close>

definition plus_one :: "count_value \<Rightarrow> count_value" where
  "plus_one v = (case v of Number n \<Rightarrow> Number (n + 1) | Native_text f k \<Rightarrow> Native_text f (k + 1))"

text \<open>
  \<open>a < b\<close>: two strings compare by code units, two numbers by value, and a string
  against a number compares \<open>NaN\<close>, which is false.
\<close>

definition js_less :: "count_value \<Rightarrow> count_value \<Rightarrow> bool" where
  "js_less a b =
     (case (a, b) of
        (Number m, Number n) \<Rightarrow> m < n
      | (Native_text f k, Native_text g l) \<Rightarrow>
          text_of f k < text_of g l
      | _ \<Rightarrow> False)"

subsection \<open>Properties inherited from Object.prototype\<close>

datatype inherited = Function string | Proto_accessor

text \<open>
  The properties every plain object inherits: the built-in functions (the key
  \<open>constructor\<close> holds the function \<open>Object\<close>) and the accessor \<open>__proto__\<close>.
\<close>

definition object_prototype :: "string \<Rightarrow> inherited option" where
  "object_prototype k =
     (if k = ''constructor'' then Some (Function ''Object'')
      else if k \<in> set [''__defineGetter__'', ''__defineSetter__'', ''hasOwnProperty'',
                        ''__lookupGetter__'', ''__lookupSetter__'', ''isPrototypeOf'',
                        ''propertyIsEnumerable'', ''toString'', ''valueOf'', ''toLocaleString'']
      then Some (Function k)
      else if k = ''__proto__'' then Some Proto_accessor
      else None)"

subsection \<open>Own properties, in enumeration order\<close>

type_synonym 'v properties = "(string \<times> 'v) list"

fun insert_index :: "nat \<Rightarrow> string \<Rightarrow> 'v \<Rightarrow> 'v properties \<Rightarrow> 'v properties" where
  "insert_index i k v [] = [(k, v)]"
| "insert_index i k v (p # ps) =
     (case array_index (fst p) of
        Some j \<Rightarrow> if j < i then p # insert_index i k v ps else (k, v) # p # ps
      | None \<Rightarrow> (k, v) # p # ps)"

text \<open>
  \<open>object[k] = v\<close> on own properties: an existing key keeps its place; a new array index
  goes to its numeric place among the indices; any other new key goes last.
\<close>

definition assign :: "string \<Rightarrow> 'v \<Rightarrow> 'v properties \<Rightarrow> 'v properties" where
  "assign k v ps =
     (if k \<in> fst ` set ps then map (\<lambda>p. if fst p = k then (k, v) else p) ps
      else case array_index k of
             Some i \<Rightarrow> insert_index i k v ps
           | None \<Rightarrow> ps @ [(k, v)])"

section \<open>The Frequency Counter: countWords\<close>

record entry =
  word :: string
  count :: count_value

text \<open>
  One round of the loop of \<open>countWords\<close>:
  \<^verbatim>\<open>if (!(word in count)) { count[word] = 0; }  count[word] += 1;\<close>
  An own key is incremented. A key that is neither own nor inherited is set to 0 and
  incremented. A key inherited as a function is read as that function, whose sum with 1
  is a string, stored as an own property. The inherited accessor \<open>__proto__\<close> ignores
  the string it is given, so the object is unchanged.
\<close>

definition count_word :: "string \<Rightarrow> count_value properties \<Rightarrow> count_value properties" where
  "count_word w cnt =
     (case map_of cnt w of
        Some v \<Rightarrow> assign w (plus_one v) cnt
      | None \<Rightarrow>
          (case object_prototype w of
             None \<Rightarrow> assign w (plus_one (Number 0)) (assign w (Number 0) cnt)
           | Some (Function f) \<Rightarrow> assign w (Native_text f 1) cnt
           | Some Proto_accessor \<Rightarrow> cnt))"

fun count_loop :: "string list \<Rightarrow> count_value properties \<Rightarrow> count_value properties" where
  "count_loop [] cnt = cnt"
| "count_loop (w # ws) cnt = count_loop ws (count_word w cnt)"

definition countWords :: "string list \<Rightarrow> entry list" where
  "countWords ws = map (\<lambda>(w, c). \<lparr>word = w, count = c\<rparr>) (count_loop ws [])"

text \<open>The order the specification names: each distinct word where it first occurs.\<close>

fun first_occurrences :: "'a list \<Rightarrow> 'a list" where
  "first_occurrences [] = []"
| "first_occurrences (a # as) = a # filter (\<lambda>b. b \<noteq> a) (first_occurrences as)"

section \<open>Assets and libraries\<close>

text \<open>
  Anything that fails is a value: a rejected promise, a property read on \<open>undefined\<close>,
  an exception thrown inside a library.
\<close>

datatype error = Rejected | TypeError | Thrown

type_synonym vector = "real list"

text \<open>
  The three assets are promises created when the module loads; they are taken as settled.
  \<^item> \<open>modelPromise\<close>: rejected, or fulfilled with the model, represented by what
    \<open>inference\<close> reads of it: the transposed weight matrix of layer 3, one row per
    vocabulary index.
  \<^item> \<open>vocabularyPromise\<close>: rejected, or fulfilled with the parsed JSON object, a map
    from word to index.
  \<^item> \<open>tokenizerPromise\<close> never rejects (the builder's error is dropped): it resolves to
    the tokenizer, or to \<open>undefined\<close>, which is \<open>None\<close>. The tokenizer is represented by
    the list of the \<open>basic_form\<close>s of the tokens of a text.
\<close>

record assets =
  modelPromise :: "error + vector list"
  vocabularyPromise :: "error + (string \<rightharpoonup> nat)"
  tokenizerPromise :: "(string \<Rightarrow> string list) option"

record tsne_options =
  dim :: nat
  perplexity :: real
  earlyExaggeration :: real
  learningRate :: real
  nIter :: nat
  metric :: string

record force_setup =
  charge_strength :: real
  collide_radius :: "real option list"
  collide_iterations :: nat
  forceX :: real
  forceY :: real
  ticks :: nat

text \<open>
  The third-party libraries are parameters: what their calls return in the run at hand.
  \<^item> \<open>TSNE\<close>: \<open>new TSNE(options)\<close>, \<open>init\<close> on dense data, \<open>run\<close>, \<open>getOutputScaled\<close>;
    with \<open>dim = 2\<close> a row of the output is a pair.
  \<^item> \<open>skmeans\<close>: the field \<open>idxs\<close> of \<open>skmeans(data, k)\<close>.
  \<^item> \<open>forceSimulation\<close>: the numbers the d3 force simulation computes when it is set
    up as given and run on nodes with the given positions and velocities (a velocity not
    yet set is \<open>undefined\<close>): the final position and the final velocity of the node
    of each index.
\<close>

record libraries =
  TSNE :: "tsne_options \<Rightarrow> vector option list \<Rightarrow> error + (real \<times> real) list"
  skmeans :: "(real \<times> real) list \<Rightarrow> int \<Rightarrow> error + nat list"
  forceSimulation ::
    "force_setup \<Rightarrow> ((real \<times> real) \<times> (real option \<times> real option)) list \<Rightarrow> nat
       \<Rightarrow> (real \<times> real) \<times> (real \<times> real)"

section \<open>Embedding Lookup and tokenizing\<close>

text \<open>
  \<open>weight[vocabulary[word]]\<close>: a word that is no own key of the vocabulary gives
  \<open>undefined\<close> or an inherited object as the index, and the array has no such property;
  an index past the end of the array gives \<open>undefined\<close> as well.
\<close>

definition row :: "vector list \<Rightarrow> nat option \<Rightarrow> vector option" where
  "row weight i = (case i of None \<Rightarrow> None
                   | Some n \<Rightarrow> if n < length weight then Some (weight ! n) else None)"

definition inference :: "assets \<Rightarrow> entry list \<Rightarrow> error + vector option list" where
  "inference a words =
     (case modelPromise a of
        Inl e \<Rightarrow> Inl e
      | Inr weight \<Rightarrow>
          (case vocabularyPromise a of
             Inl e \<Rightarrow> Inl e
           | Inr vocabulary \<Rightarrow> Inr (map (\<lambda>e. row weight (vocabulary (word e))) words)))"

text \<open>\<open>word in vocabulary\<close>: an own key, or a key inherited from \<open>Object.prototype\<close>.\<close>

definition has_property :: "(string \<rightharpoonup> 'v) \<Rightarrow> string \<Rightarrow> bool" where
  "has_property obj k = (obj k \<noteq> None \<or> object_prototype k \<noteq> None)"

definition tokenize :: "assets \<Rightarrow> string \<Rightarrow> error + string list" where
  "tokenize a text =
     (case vocabularyPromise a of
        Inl e \<Rightarrow> Inl e
      | Inr vocabulary \<Rightarrow>
          (case tokenizerPromise a of
             None \<Rightarrow> Inl TypeError
           | Some tokenizer \<Rightarrow> Inr (filter (has_property vocabulary) (tokenizer text))))"

section \<open>Dimensionality reduction and clustering\<close>

definition dimensionalityReduction ::
  "libraries \<Rightarrow> vector option list \<Rightarrow> error + (real \<times> real) list" where
  "dimensionalityReduction lib inputData =
     TSNE lib \<lparr>dim = 2, perplexity = 30, earlyExaggeration = 4, learningRate = 100,
               nIter = 200, metric = ''euclidean''\<rparr> inputData"

definition clustering :: "libraries \<Rightarrow> (real \<times> real) list \<Rightarrow> int \<Rightarrow> error + nat list" where
  "clustering lib inputData numClusters = skmeans lib inputData numClusters"

section \<open>The Radius Scaler: d3.extent and d3.scaleSqrt\<close>

text \<open>
  \<open>a >= b\<close> on count values, as \<open>js_less\<close>: false between a number and a string.
\<close>

definition js_geq :: "count_value \<Rightarrow> count_value \<Rightarrow> bool" where
  "js_geq a b =
     (case (a, b) of
        (Number m, Number n) \<Rightarrow> n \<le> m
      | (Native_text f k, Native_text g l) \<Rightarrow>
          text_of g l \<le> text_of f k
      | _ \<Rightarrow> False)"

text \<open>
  \<open>d3.extent(values)\<close>: the first value comparable with itself starts minimum and
  maximum; each later value replaces the minimum when \<open>min > value\<close> and the maximum when
  \<open>max < value\<close>. \<open>None\<close> is the result \<open>[undefined, undefined]\<close>.
\<close>

fun extent_loop ::
  "count_value list \<Rightarrow> (count_value \<times> count_value) option \<Rightarrow> (count_value \<times> count_value) option" where
  "extent_loop [] acc = acc"
| "extent_loop (v # vs) None = extent_loop vs (if js_geq v v then Some (v, v) else None)"
| "extent_loop (v # vs) (Some (lo, hi)) =
     extent_loop vs (Some (if js_less v lo then v else lo, if js_less hi v then v else hi))"

definition extent :: "count_value list \<Rightarrow> (count_value \<times> count_value) option" where
  "extent vs = extent_loop vs None"

text \<open>\<open>scale.domain(d)\<close> coerces both ends to numbers; \<open>undefined\<close> becomes \<open>NaN\<close>.\<close>

definition domain :: "(count_value \<times> count_value) option \<Rightarrow> real option \<times> real option" where
  "domain d = (case d of None \<Rightarrow> (None, None) | Some (lo, hi) \<Rightarrow> (to_number lo, to_number hi))"

definition transformSqrt :: "real \<Rightarrow> real" where
  "transformSqrt a = (if a < 0 then - sqrt (- a) else sqrt a)"

text \<open>
  \<open>normalize(a, b)\<close> of d3-scale: the position of a value between \<open>a\<close> and \<open>b\<close>; when
  \<open>b - a\<close> is zero the constant 0.5, when it is \<open>NaN\<close> the constant \<open>NaN\<close>.
\<close>

definition normalize :: "real option \<Rightarrow> real option \<Rightarrow> real \<Rightarrow> real option" where
  "normalize a b v =
     (case (a, b) of
        (Some a', Some b') \<Rightarrow> if b' - a' \<noteq> 0 then Some ((v - a') / (b' - a')) else Some (1 / 2)
      | _ \<Rightarrow> None)"

definition interpolateNumber :: "real \<Rightarrow> real \<Rightarrow> real option \<Rightarrow> real option" where
  "interpolateNumber a b t = map_option (\<lambda>t'. a * (1 - t') + b * t') t"

text \<open>\<open>d1 < d0\<close> is false when either end is \<open>NaN\<close>.\<close>

definition bimap :: "real option \<times> real option \<Rightarrow> real \<times> real \<Rightarrow> real \<Rightarrow> real option" where
  "bimap d rng v =
     (case d of (d0, d1) \<Rightarrow> case rng of (r0, r1) \<Rightarrow>
        if (case (d0, d1) of (Some a, Some b) \<Rightarrow> b < a | _ \<Rightarrow> False)
        then interpolateNumber r1 r0 (normalize d1 d0 v)
        else interpolateNumber r0 r1 (normalize d0 d1 v))"

text \<open>
  The scale \<open>d3.scaleSqrt().domain(d).range(rng)\<close> applied to a value: a value that is
  not a number gives \<open>undefined\<close>; otherwise the square roots of the domain's ends are
  mapped linearly onto the range. The scale does not clamp.
\<close>

definition scaleSqrt :: "real option \<times> real option \<Rightarrow> real \<times> real \<Rightarrow> count_value \<Rightarrow> real option" where
  "scaleSqrt d rng v =
     (case to_number v of
        None \<Rightarrow> None
      | Some a \<Rightarrow> bimap (map_option transformSqrt (fst d), map_option transformSqrt (snd d)) rng
                    (transformSqrt a))"

text \<open>The scale \<open>rScale\<close> that \<open>visualize\<close> builds from the Words.\<close>

definition rScale :: "real \<Rightarrow> real \<Rightarrow> entry list \<Rightarrow> count_value \<Rightarrow> real option" where
  "rScale lo hi words = scaleSqrt (domain (extent (map count words))) (lo, hi)"

section \<open>The pipeline: visualize\<close>

text \<open>
  A Word once \<open>visualize\<close> has written its fields. \<open>group\<close> is \<open>undefined\<close> when
  the cluster assignment has no entry at the Word's index; \<open>r\<close> is \<open>undefined\<close> or
  \<open>NaN\<close> when the scale gives no number. The fields \<open>index\<close>, \<open>vx\<close> and \<open>vy\<close>
  are the ones the d3 simulation adds to the objects it is given as nodes; they are
  \<open>undefined\<close> until it has run.
\<close>

record bubble = entry +
  x :: real
  y :: real
  x0 :: real
  y0 :: real
  group :: "nat option"
  r :: "real option"
  index :: "nat option"
  vx :: "real option"
  vy :: "real option"

text \<open>
  The second argument of \<open>visualize\<close>. (The older copy of the file takes
  \<open>numClusters\<close> alone and fixes the range of the radius to 10 and 30.)
\<close>

record options =
  numClusters :: int
  minR :: real
  maxR :: real

text \<open>
  The loop \<open>words.forEach((word, i) => ...)\<close>, from index \<open>i\<close> on. Reading
  \<open>xy[i][0]\<close> past the end of \<open>xy\<close> is a TypeError; \<open>groups[i]\<close> past the end of
  \<open>groups\<close> is \<open>undefined\<close>.
\<close>

fun forEach ::
  "(count_value \<Rightarrow> real option) \<Rightarrow> (real \<times> real) list \<Rightarrow> nat list \<Rightarrow> nat \<Rightarrow> entry list
     \<Rightarrow> error + bubble list" where
  "forEach scale xy groups i [] = Inr []"
| "forEach scale xy groups i (w # ws) =
     (if i < length xy
      then (case forEach scale xy groups (i + 1) ws of
              Inl e \<Rightarrow> Inl e
            | Inr bs \<Rightarrow>
                Inr (\<lparr>word = word w, count = count w,
                      x = fst (xy ! i) * 600, y = snd (xy ! i) * 600,
                      x0 = fst (xy ! i) * 600, y0 = snd (xy ! i) * 600,
                      group = (if i < length groups then Some (groups ! i) else None),
                      r = scale (count w), index = None, vx = None, vy = None\<rparr> # bs))
      else Inl TypeError)"

text \<open>
  What \<open>d3.forceSimulation(nodes)\<close>, set up and ticked, does to the objects it is given:
  d3 assigns to each node its \<open>index\<close> in the array, and its \<open>x\<close>, \<open>y\<close>, \<open>vx\<close>
  and \<open>vy\<close>; it assigns no other property of a node. The numbers are the library's.
\<close>

definition simulation :: "libraries \<Rightarrow> force_setup \<Rightarrow> bubble list \<Rightarrow> bubble list" where
  "simulation lib setup nodes =
     (let start = map (\<lambda>n. ((x n, y n), (vx n, vy n))) nodes
      in map (\<lambda>(i, n). case forceSimulation lib setup start i of
                          ((a, b), (c, d)) \<Rightarrow>
                            n\<lparr>x := a, y := b, index := Some i, vx := Some c, vy := Some d\<rparr>)
           (enumerate 0 nodes))"

text \<open>
  \<open>improveLayout\<close> assigns nothing itself: it gives the Words to the simulation as its
  nodes, with a many-body force of strength 10, a collision force of radius \<open>r + 1\<close> and
  30 iterations, the forces to \<open>x = 0\<close> and \<open>y = 0\<close>, and 100 ticks.
\<close>

definition improveLayout :: "libraries \<Rightarrow> bubble list \<Rightarrow> bubble list" where
  "improveLayout lib words =
     simulation lib
       \<lparr>charge_strength = 10,
        collide_radius = map (\<lambda>w. map_option (\<lambda>a. a + 1) (r w)) words,
        collide_iterations = 30, forceX = 0, forceY = 0, ticks = 100\<rparr>
       words"

definition visualize :: "assets \<Rightarrow> libraries \<Rightarrow> string \<Rightarrow> options \<Rightarrow> error + bubble list" where
  "visualize a lib text opts =
     (case tokenize a text of
        Inl e \<Rightarrow> Inl e
      | Inr tokens \<Rightarrow>
          (let words = countWords tokens in
           case inference a words of
             Inl e \<Rightarrow> Inl e
           | Inr wordVector \<Rightarrow>
               (case dimensionalityReduction lib wordVector of
                  Inl e \<Rightarrow> Inl e
                | Inr xy \<Rightarrow>
                    (case clustering lib xy (numClusters opts) of
                       Inl e \<Rightarrow> Inl e
                     | Inr groups \<Rightarrow>
                         (case forEach (rScale (minR opts) (maxR opts) words) xy groups 0 words of
                            Inl e \<Rightarrow> Inl e
                          | Inr placed \<Rightarrow> Inr (improveLayout lib placed))))))"

section \<open>The Font Fitter and the chart\<close>

text \<open>
  The rendering capability: the bounding box (width, height) of an SVG text element with
  the given content and attributes. An attribute set to \<open>undefined\<close> holds the string
  \<open>undefined\<close>.
\<close>

record svg_text =
  textContent :: string
  font_family :: string
  font_weight :: string
  font_size :: real

definition attribute :: "string option \<Rightarrow> string" where
  "attribute v = (case v of None \<Rightarrow> ''undefined'' | Some s \<Rightarrow> s)"

definition half_diagonal :: "real \<times> real \<Rightarrow> real" where
  "half_diagonal box = sqrt ((fst box)\<^sup>2 + (snd box)\<^sup>2) / 2"

text \<open>\<open>d <= r\<close> is false when \<open>r\<close> is \<open>undefined\<close> or \<open>NaN\<close>.\<close>

definition fits :: "real \<Rightarrow> real option \<Rightarrow> bool" where
  "fits d rad = (case rad of None \<Rightarrow> False | Some a \<Rightarrow> d \<le> a)"

text \<open>
  The state of the loop of \<open>optimalFontSize\<close>, with the text elements it has measured
  so far, in order.
\<close>

record fit =
  ok :: real
  ng :: real
  iter :: nat
  measured :: "svg_text list"

function bisect ::
  "(svg_text \<Rightarrow> real \<times> real) \<Rightarrow> string \<Rightarrow> real option \<Rightarrow> string \<Rightarrow> string \<Rightarrow> fit \<Rightarrow> fit" where
  "bisect getBBox w rad family weight s =
     (if iter s < 10
      then (let m = (ok s + ng s) / 2;
                text = \<lparr>textContent = w, font_family = family, font_weight = weight, font_size = m\<rparr>;
                d = half_diagonal (getBBox text)
            in bisect getBBox w rad family weight
                 (if fits d rad
                  then s\<lparr>ok := m, iter := iter s + 1, measured := measured s @ [text]\<rparr>
                  else s\<lparr>ng := m, iter := iter s + 1, measured := measured s @ [text]\<rparr>))
      else s)"
  by pat_completeness auto
termination
  by (relation "measure (\<lambda>(getBBox, w, rad, family, weight, s). 10 - iter s)") auto

declare bisect.simps [simp del]

definition fitting ::
  "(svg_text \<Rightarrow> real \<times> real) \<Rightarrow> string \<Rightarrow> real option \<Rightarrow> string option \<Rightarrow> string option \<Rightarrow> fit" where
  "fitting getBBox w rad fontFamily fontWeight =
     bisect getBBox w rad (attribute fontFamily) (attribute fontWeight)
       \<lparr>ok = 0, ng = 100, iter = 0, measured = []\<rparr>"

text \<open>The font size returned, and the measurements made on the way.\<close>

definition optimalFontSize ::
  "(svg_text \<Rightarrow> real \<times> real) \<Rightarrow> string \<Rightarrow> real option \<Rightarrow> string option \<Rightarrow> string option
     \<Rightarrow> real \<times> svg_text list" where
  "optimalFontSize getBBox w rad fontFamily fontWeight =
     (let s = fitting getBBox w rad fontFamily fontWeight in (ok s, measured s))"

text \<open>
  What \<open>Chart\<close> renders for one Word: a circle and a text. The transform of the group
  that holds them is not modelled.
\<close>

record glyph =
  key :: string
  circle_r :: "real option"
  fill :: "nat option"
  fontSize :: real
  fontFamily :: string
  fontWeight :: string
  label :: string

definition display_fontFamily :: string where
  "display_fontFamily = [CHR 0x27] @ ''Sawarabi Gothic'' @ [CHR 0x27] @ '', sans-serif''"

definition display_fontWeight :: string where
  "display_fontWeight = ''normal''"

text \<open>
  \<open>Chart\<close>: the glyph of each Word, paired with the measurements that the call
  \<open>optimalFontSize(word.word, word.r)\<close> made for it; the call passes two arguments, so
  its parameters \<open>fontFamily\<close> and \<open>fontWeight\<close> are \<open>undefined\<close>.
\<close>

definition Chart :: "(svg_text \<Rightarrow> real \<times> real) \<Rightarrow> bubble list \<Rightarrow> (glyph \<times> svg_text list) list" where
  "Chart getBBox words =
     map (\<lambda>w. case optimalFontSize getBBox (word w) (r w) None None of
                (f, requests) \<Rightarrow>
                  (\<lparr>key = word w, circle_r = r w, fill = group w, fontSize = f,
                    fontFamily = display_fontFamily, fontWeight = display_fontWeight,
                    label = word w\<rparr>, requests))
       words"

text \<open>
  The quantity the Font Fitter compares with the radius: half the diagonal of the bounding
  box of the word at a font size, measured with the font attributes the call was given.
\<close>

definition diagonal_at ::
  "(svg_text \<Rightarrow> real \<times> real) \<Rightarrow> string \<Rightarrow> string option \<Rightarrow> string option \<Rightarrow> real \<Rightarrow> real" where
  "diagonal_at getBBox w fam wt f =
     half_diagonal (getBBox \<lparr>textContent = w, font_family = attribute fam,
                              font_weight = attribute wt, font_size = f\<rparr>)"

section \<open>Invariants used in the proofs\<close>

text \<open>Keys in enumeration order: once a key is no array index, none after it is.\<close>

fun indices_first :: "string list \<Rightarrow> bool" where
  "indices_first [] = True"
| "indices_first (k # ks) = (if is_index k then indices_first ks else list_all (\<lambda>j. \<not> is_index j) ks)"

text \<open>
  The accumulator of \<open>countWords\<close> after the words \<open>ws\<close>: one own property per
  distinct word, holding its number of occurrences, the array indices first and ascending,
  the other words in the order of their first occurrence.
\<close>

definition counted :: "string list \<Rightarrow> count_value properties \<Rightarrow> bool" where
  "counted ws ps \<longleftrightarrow>
     distinct (map fst ps) \<and> fst ` set ps = set ws \<and>
     (\<forall>p \<in> set ps. snd p = Number (count_list ws (fst p))) \<and>
     indices_first (map fst ps) \<and>
     sorted (map decimal (filter is_index (map fst ps))) \<and>
     filter (\<lambda>k. \<not> is_index k) (map fst ps) = first_occurrences (filter (\<lambda>k. \<not> is_index k) ws)"

text \<open>
  The state of the bisection after \<open>iter\<close> rounds, for a radius \<open>a\<close> and a diagonal
  \<open>d\<close>: the interval from \<open>ok\<close> to \<open>ng\<close> lies in 0 to 100 and has the width
  \<open>100 / 2 ^ iter\<close>; \<open>ok\<close> fits unless it is still 0, \<open>ng\<close> does not fit unless it
  is still 100; one measurement was made per round, at a font size from 0 to 100.
\<close>

definition fit_inv :: "(real \<Rightarrow> real) \<Rightarrow> real \<Rightarrow> fit \<Rightarrow> bool" where
  "fit_inv d a s \<longleftrightarrow>
     iter s \<le> 10 \<and> ng s - ok s = 100 / 2 ^ iter s \<and> 0 \<le> ok s \<and> ng s \<le> 100 \<and>
     (ok s = 0 \<or> d (ok s) \<le> a) \<and> (ng s = 100 \<or> a < d (ng s)) \<and>
     length (measured s) = iter s \<and>
     (\<forall>t \<in> set (measured s). 0 \<le> font_size t \<and> font_size t \<le> 100)"

text \<open>
  The state of the bisection as its measurements decided it, for any radius: \<open>ok\<close> is
  0 or the size of a measured element that fits, \<open>ng\<close> is 100 or the size of a measured
  element that does not fit, and they are \<open>100 / 2 ^ iter\<close> apart.
\<close>

definition decided :: "(svg_text \<Rightarrow> real \<times> real) \<Rightarrow> real option \<Rightarrow> fit \<Rightarrow> bool" where
  "decided getBBox rad s \<longleftrightarrow>
     iter s \<le> 10 \<and> ng s - ok s = 100 / 2 ^ iter s \<and>
     (ok s = 0 \<or>
        (\<exists>t \<in> set (measured s). font_size t = ok s \<and> fits (half_diagonal (getBBox t)) rad)) \<and>
     (ng s = 100 \<or>
        (\<exists>t \<in> set (measured s). font_size t = ng s \<and> \<not> fits (half_diagonal (getBBox t)) rad))"

section \<open>Frequency Counter: proofs\<close>

lemma count_loop_append: "count_loop (xs @ ys) cnt = count_loop ys (count_loop xs cnt)"
  by (induction xs arbitrary: cnt) simp_all

lemma count_loop_snoc: "count_loop (ws @ [w]) [] = count_word w (count_loop ws [])"
  by (simp add: count_loop_append)

lemma filter_first_occurrences:
  "filter P (first_occurrences xs) = first_occurrences (filter P xs)"
proof (induction xs)
  case Nil
  show ?case by simp
next
  case (Cons a xs)
  show ?case
  proof (cases "P a")
    case True
    then show ?thesis using Cons [symmetric] by (simp add: conj_commute)
  next
    case False
    have "filter (\<lambda>b. P b \<and> b \<noteq> a) ys = filter P ys" for ys
      using False by (induction ys) auto
    then show ?thesis using False Cons [symmetric] by (simp add: conj_commute)
  qed
qed

lemma set_first_occurrences: "set (first_occurrences xs) = set xs"
  by (induction xs) auto

lemma distinct_first_occurrences: "distinct (first_occurrences xs)"
  by (induction xs) (auto simp: set_first_occurrences)

lemma first_occurrences_snoc:
  "first_occurrences (xs @ [a]) = (if a \<in> set xs then first_occurrences xs else first_occurrences xs @ [a])"
  by (induction xs) (auto simp: set_first_occurrences)

lemma first_occurrences_distinct: "distinct xs \<Longrightarrow> first_occurrences xs = xs"
  by (induction xs) (auto simp: set_first_occurrences filter_id_conv)

lemma indices_first_split:
  "indices_first ks \<Longrightarrow> ks = filter is_index ks @ filter (\<lambda>k. \<not> is_index k) ks"
proof (induction ks)
  case Nil
  show ?case by simp
next
  case (Cons k ks)
  show ?case
  proof (cases "is_index k")
    case True
    then show ?thesis using Cons by simp
  next
    case False
    then have none: "list_all (\<lambda>j. \<not> is_index j) ks" using Cons.prems by simp
    then have "filter is_index ks = []" and "filter (\<lambda>k. \<not> is_index k) ks = ks"
      by (auto simp: list_all_iff filter_empty_conv filter_id_conv)
    then show ?thesis using False by simp
  qed
qed

lemma indices_first_append:
  "indices_first ks \<Longrightarrow> \<not> is_index k \<Longrightarrow> indices_first (ks @ [k])"
  by (induction ks) (auto simp: list_all_iff)

lemma set_insert_index: "set (insert_index i k v ps) = insert (k, v) (set ps)"
  by (induction ps) (auto split: option.splits)

lemma distinct_insert_index:
  "distinct (map fst ps) \<Longrightarrow> k \<notin> fst ` set ps \<Longrightarrow> distinct (map fst (insert_index i k v ps))"
proof (induction ps)
  case Nil
  show ?case by simp
next
  case (Cons p ps)
  then show ?case
    by (cases "array_index (fst p)") (auto simp: set_insert_index split: option.splits)
qed

lemma filter_insert_index:
  "\<not> P k \<Longrightarrow> filter P (map fst (insert_index i k v ps)) = filter P (map fst ps)"
  by (induction ps) (auto split: option.splits)

lemma indices_first_insert_index:
  "indices_first (map fst ps) \<Longrightarrow> is_index k \<Longrightarrow> indices_first (map fst (insert_index i k v ps))"
  by (induction ps) (auto simp: is_index_def split: option.splits)

lemma sorted_insert_index:
  assumes "indices_first (map fst ps)" "sorted (map decimal (filter is_index (map fst ps)))"
    and "array_index k = Some i"
  shows "sorted (map decimal (filter is_index (map fst (insert_index i k v ps))))"
  using assms
proof (induction ps)
  case Nil
  then show ?case by simp
next
  case (Cons p ps)
  have ik: "is_index k" "decimal k = i"
    using Cons.prems(3) by (auto simp: is_index_def array_index_def split: if_splits)
  show ?case
  proof (cases "array_index (fst p)")
    case None
    then have "\<not> is_index (fst p)" by (simp add: is_index_def)
    then have "filter is_index (map fst ps) = []"
      using Cons.prems(1) by (auto simp: list_all_iff filter_empty_conv)
    then show ?thesis using None ik \<open>\<not> is_index (fst p)\<close> by simp
  next
    case (Some j)
    then have ip: "is_index (fst p)" "decimal (fst p) = j"
      by (auto simp: is_index_def array_index_def split: if_splits)
    show ?thesis
    proof (cases "j < i")
      case True
      have "sorted (map decimal (filter is_index (map fst (insert_index i k v ps))))"
        using Cons ip by simp
      moreover have "\<forall>x \<in> set (filter is_index (map fst (insert_index i k v ps))). j \<le> decimal x"
        using Cons.prems(2) ip ik True by (auto simp: set_insert_index)
      ultimately show ?thesis using Some True ip by simp
    next
      case False
      then show ?thesis using Some ip ik Cons.prems(2) by auto
    qed
  qed
qed

lemma update_absent:
  "k \<notin> fst ` set ps \<Longrightarrow> map (\<lambda>p. if fst p = k then (k, b) else p) ps = ps"
  by (induction ps) auto

lemma update_insert_index:
  "k \<notin> fst ` set ps \<Longrightarrow>
   map (\<lambda>p. if fst p = k then (k, b) else p) (insert_index i k a ps) = insert_index i k b ps"
proof (induction ps)
  case Nil
  show ?case by simp
next
  case (Cons p ps)
  then show ?case by (cases "array_index (fst p)") (auto simp: update_absent)
qed

lemma assign_twice:
  assumes "k \<notin> fst ` set ps"
  shows "assign k b (assign k a ps) = assign k b ps"
proof (cases "array_index k")
  case None
  then have "assign k a ps = ps @ [(k, a)]" using assms by (simp add: assign_def)
  then show ?thesis using assms None by (simp add: assign_def update_absent)
next
  case (Some i)
  then have "assign k a ps = insert_index i k a ps" using assms by (simp add: assign_def)
  moreover have "k \<in> fst ` set (insert_index i k a ps)" by (simp add: set_insert_index)
  ultimately show ?thesis using assms Some by (simp add: assign_def update_insert_index)
qed

lemma count_word_plain:
  assumes "object_prototype w = None" "distinct (map fst ps)"
  shows "count_word w ps =
     (case map_of ps w of
        Some v \<Rightarrow> map (\<lambda>p. if fst p = w then (w, plus_one v) else p) ps
      | None \<Rightarrow> (case array_index w of
                   Some i \<Rightarrow> insert_index i w (Number 1) ps
                 | None \<Rightarrow> ps @ [(w, Number 1)]))"
proof (cases "map_of ps w")
  case None
  then have notin: "w \<notin> fst ` set ps" by (simp add: map_of_eq_None_iff)
  have "count_word w ps = assign w (plus_one (Number 0)) ps"
    using None assms(1) notin by (simp add: count_word_def assign_twice)
  also have "\<dots> = (case array_index w of
                   Some i \<Rightarrow> insert_index i w (Number 1) ps
                 | None \<Rightarrow> ps @ [(w, Number 1)])"
    using notin by (simp add: assign_def plus_one_def split: option.splits)
  finally show ?thesis using None by simp
next
  case (Some v)
  then have "w \<in> fst ` set ps" by (metis map_of_eq_None_iff option.distinct(1))
  then show ?thesis using Some by (simp add: count_word_def assign_def)
qed

lemma counted_old:
  assumes "counted ws ps" "map_of ps w = Some v"
  shows "counted (ws @ [w]) (map (\<lambda>p. if fst p = w then (w, plus_one v) else p) ps)"
proof -
  let ?f = "\<lambda>p. if fst p = w then (w, plus_one v) else p"
  have keys: "map fst (map ?f ps) = map fst ps" by (induction ps) auto
  have mem: "(w, v) \<in> set ps" using assms(2) by (rule map_of_SomeD)
  then have w: "w \<in> set ws" using assms(1) by (force simp: counted_def)
  have v: "v = Number (count_list ws w)" using mem assms(1) by (force simp: counted_def)
  have vals: "\<forall>p \<in> set (map ?f ps). snd p = Number (count_list (ws @ [w]) (fst p))"
    using assms(1) v by (auto simp: counted_def plus_one_def)
  have "fst ` set (map ?f ps) = set (ws @ [w])"
    using keys w assms(1) by (metis counted_def insert_absorb list.set_map list.simps(15) set_append
        Un_insert_right sup_bot.right_neutral empty_set)
  moreover have "first_occurrences (filter (\<lambda>k. \<not> is_index k) (ws @ [w]))
      = first_occurrences (filter (\<lambda>k. \<not> is_index k) ws)"
    using w by (simp add: first_occurrences_snoc)
  ultimately show ?thesis
    using assms(1) vals unfolding counted_def keys by simp
qed

lemma counted_new_index:
  assumes "counted ws ps" "w \<notin> set ws" "array_index w = Some i"
  shows "counted (ws @ [w]) (insert_index i w (Number 1) ps)"
proof -
  have notin: "w \<notin> fst ` set ps" using assms(1,2) by (simp add: counted_def)
  have idx: "is_index w" using assms(3) by (simp add: is_index_def)
  have d: "distinct (map fst (insert_index i w (Number 1) ps))"
    using assms(1) notin by (simp add: counted_def distinct_insert_index)
  have s: "fst ` set (insert_index i w (Number 1) ps) = set (ws @ [w])"
    using assms(1) by (auto simp: counted_def set_insert_index)
  have v: "\<forall>p \<in> set (insert_index i w (Number 1) ps). snd p = Number (count_list (ws @ [w]) (fst p))"
    using assms(1,2) notin by (auto simp: counted_def set_insert_index)
  have f: "indices_first (map fst (insert_index i w (Number 1) ps))"
    using assms(1) idx by (simp add: counted_def indices_first_insert_index)
  have o: "sorted (map decimal (filter is_index (map fst (insert_index i w (Number 1) ps))))"
    using assms(1,3) by (simp add: counted_def sorted_insert_index)
  have n: "filter (\<lambda>k. \<not> is_index k) (map fst (insert_index i w (Number 1) ps))
      = first_occurrences (filter (\<lambda>k. \<not> is_index k) (ws @ [w]))"
    using assms(1) idx by (simp add: counted_def filter_insert_index)
  show ?thesis unfolding counted_def using d s v f o n by blast
qed

lemma counted_new_other:
  assumes "counted ws ps" "w \<notin> set ws" "array_index w = None"
  shows "counted (ws @ [w]) (ps @ [(w, Number 1)])"
proof -
  have notin: "w \<notin> fst ` set ps" using assms(1,2) by (simp add: counted_def)
  have idx: "\<not> is_index w" using assms(3) by (simp add: is_index_def)
  have d: "distinct (map fst (ps @ [(w, Number 1)]))"
    using assms(1) notin by (simp add: counted_def)
  have s: "fst ` set (ps @ [(w, Number 1)]) = set (ws @ [w])"
    using assms(1) by (auto simp: counted_def)
  have v: "\<forall>p \<in> set (ps @ [(w, Number 1)]). snd p = Number (count_list (ws @ [w]) (fst p))"
    using assms(1,2) notin by (auto simp: counted_def)
  have f: "indices_first (map fst (ps @ [(w, Number 1)]))"
    using assms(1) idx by (simp add: counted_def indices_first_append)
  have o: "sorted (map decimal (filter is_index (map fst (ps @ [(w, Number 1)]))))"
    using assms(1) idx by (simp add: counted_def)
  have "w \<notin> set (filter (\<lambda>k. \<not> is_index k) ws)" using assms(2) by simp
  then have n: "filter (\<lambda>k. \<not> is_index k) (map fst (ps @ [(w, Number 1)]))
      = first_occurrences (filter (\<lambda>k. \<not> is_index k) (ws @ [w]))"
    using assms(1) idx by (simp add: counted_def first_occurrences_snoc)
  show ?thesis unfolding counted_def using d s v f o n by blast
qed

lemma counted_step:
  assumes "counted ws ps" "object_prototype w = None"
  shows "counted (ws @ [w]) (count_word w ps)"
proof -
  have d: "distinct (map fst ps)" using assms(1) by (simp add: counted_def)
  show ?thesis
  proof (cases "map_of ps w")
    case (Some v)
    then show ?thesis using assms d by (simp add: count_word_plain counted_old)
  next
    case None
    then have "w \<notin> fst ` set ps" by (simp add: map_of_eq_None_iff)
    then have new: "w \<notin> set ws" using assms(1) by (simp add: counted_def)
    show ?thesis
    proof (cases "array_index w")
      case None': None
      then show ?thesis
        using None assms(2) d counted_new_other [OF assms(1) new None']
        by (simp add: count_word_plain)
    next
      case (Some i)
      then show ?thesis
        using None assms(2) d counted_new_index [OF assms(1) new Some]
        by (simp add: count_word_plain)
    qed
  qed
qed

lemma counted_count_loop:
  "\<forall>w \<in> set ws. object_prototype w = None \<Longrightarrow> counted ws (count_loop ws [])"
proof (induction ws rule: rev_induct)
  case Nil
  show ?case by (simp add: counted_def)
next
  case (snoc w ws)
  then show ?case by (simp add: count_loop_snoc counted_step)
qed

text \<open>
  Claim C2, as the code has it. For every sequence of words none of which is a property
  name of \<open>Object.prototype\<close>, \<open>countWords\<close> returns exactly one pair per distinct
  word, with the number of occurrences of the word as its count. The words that are array
  indices come first, in ascending numeric order; the other words follow in the order of
  their first occurrence. When no word is an array index, the result is the list of the
  distinct words in first-occurrence order, each with its number of occurrences.
\<close>

theorem countWords_counts:
  assumes plain: "\<forall>w \<in> set ws. object_prototype w = None"
  shows "distinct (map word (countWords ws)) \<and>
         set (map word (countWords ws)) = set ws \<and>
         (\<forall>e \<in> set (countWords ws). count e = Number (count_list ws (word e))) \<and>
         map word (countWords ws) =
           filter is_index (map word (countWords ws)) @
           first_occurrences (filter (\<lambda>k. \<not> is_index k) ws) \<and>
         sorted (map decimal (filter is_index (map word (countWords ws)))) \<and>
         ((\<forall>w \<in> set ws. \<not> is_index w) \<longrightarrow>
            countWords ws =
              map (\<lambda>w. \<lparr>word = w, count = Number (count_list ws w)\<rparr>) (first_occurrences ws))"
proof -
  let ?ps = "count_loop ws []"
  have c: "counted ws ?ps" using plain by (rule counted_count_loop)
  have words: "map word (countWords ws) = map fst ?ps"
    by (simp add: countWords_def case_prod_unfold comp_def)
  have d: "distinct (map word (countWords ws))"
    using c by (simp add: words counted_def)
  have s: "set (map word (countWords ws)) = set ws"
    using c unfolding words by (simp add: counted_def)
  have v: "\<forall>e \<in> set (countWords ws). count e = Number (count_list ws (word e))"
    using c by (auto simp: countWords_def counted_def)
  have sp: "map fst ?ps = filter is_index (map fst ?ps) @ filter (\<lambda>k. \<not> is_index k) (map fst ?ps)"
    using c indices_first_split unfolding counted_def by blast
  have fo: "filter (\<lambda>k. \<not> is_index k) (map fst ?ps) =
      first_occurrences (filter (\<lambda>k. \<not> is_index k) ws)"
    using c unfolding counted_def by blast
  have o: "map word (countWords ws) =
      filter is_index (map word (countWords ws)) @
      first_occurrences (filter (\<lambda>k. \<not> is_index k) ws)"
    unfolding words using sp fo by metis
  have i: "sorted (map decimal (filter is_index (map word (countWords ws))))"
    using c unfolding words by (simp add: counted_def)
  have f: "countWords ws =
      map (\<lambda>w. \<lparr>word = w, count = Number (count_list ws w)\<rparr>) (first_occurrences ws)"
    if none: "\<forall>w \<in> set ws. \<not> is_index w"
  proof -
    have "filter is_index (map word (countWords ws)) = []"
      using none s by (auto simp: filter_empty_conv)
    moreover have "filter (\<lambda>k. \<not> is_index k) ws = ws"
      using none by (simp add: filter_id_conv)
    ultimately have keys: "map word (countWords ws) = first_occurrences ws"
      using o by simp
    have "countWords ws = map (\<lambda>e. \<lparr>word = word e, count = Number (count_list ws (word e))\<rparr>) (countWords ws)"
      using v by (simp add: map_idI)
    also have "\<dots> = map (\<lambda>w. \<lparr>word = w, count = Number (count_list ws w)\<rparr>) (map word (countWords ws))"
      by (simp add: comp_def)
    finally show ?thesis unfolding keys .
  qed
  show ?thesis using d s v o i f by blast
qed

text \<open>
  Witness for C2: the sequence a, b, a, c, b, a of the specification gives a:3, b:2, c:1 in
  this order.
\<close>

theorem countWords_counts_witness:
  "countWords [''a'', ''b'', ''a'', ''c'', ''b'', ''a''] =
     [\<lparr>word = ''a'', count = Number 3\<rparr>, \<lparr>word = ''b'', count = Number 2\<rparr>,
      \<lparr>word = ''c'', count = Number 1\<rparr>]"
proof -
  let ?ws = "[''a'', ''b'', ''a'', ''c'', ''b'', ''a'']"
  have plain: "\<forall>w \<in> set ?ws. object_prototype w = None"
    by (simp add: object_prototype_def)
  have none: "\<forall>w \<in> set ?ws. \<not> is_index w"
    by (simp add: is_index_def array_index_def is_digit_def)
  have "countWords ?ws =
      map (\<lambda>w. \<lparr>word = w, count = Number (count_list ?ws w)\<rparr>) (first_occurrences ?ws)"
    using countWords_counts [OF plain] none by blast
  then show ?thesis by simp
qed

text \<open>
  Counterexample to C2 as stated: on the words b, 1 the pair of the array index 1 comes
  before the pair of b, which occurs first.
\<close>

theorem countWords_order_counterexample:
  "countWords [''b'', ''1''] =
     [\<lparr>word = ''1'', count = Number 1\<rparr>, \<lparr>word = ''b'', count = Number 1\<rparr>] \<and>
   first_occurrences [''b'', ''1''] = [''b'', ''1''] \<and>
   map word (countWords [''b'', ''1'']) \<noteq> first_occurrences [''b'', ''1'']"
  by (simp add: countWords_def count_word_def assign_def array_index_def is_digit_def
      decimal_def digit_value_def object_prototype_def plus_one_def)

text \<open>
  Why the property names of \<open>Object.prototype\<close> are left out of C2: \<open>constructor\<close> is
  counted as a string, and \<open>__proto__\<close> gets no pair.
\<close>

lemma countWords_inherited_key:
  "countWords [''constructor'', ''a'', ''constructor'', ''__proto__''] =
     [\<lparr>word = ''constructor'', count = Native_text ''Object'' 2\<rparr>,
      \<lparr>word = ''a'', count = Number 1\<rparr>]"
  by (simp add: countWords_def count_word_def assign_def array_index_def is_digit_def
      decimal_def digit_value_def object_prototype_def plus_one_def)

section \<open>Embedding Lookup: proofs\<close>

text \<open>
  Claim C4, as the code has it. \<open>inference\<close> has no lookup error: once the model and
  the vocabulary are loaded it returns one entry per Word, in the order of the Words. The
  entry of a word absent from the Vocabulary index is \<open>undefined\<close>; the entry of a word
  whose index is a row of the matrix is that row. No word is dropped.
\<close>

theorem inference_no_lookup_error:
  assumes "modelPromise a = Inr weight" "vocabularyPromise a = Inr vocabulary"
  shows "\<exists>vs. inference a words = Inr vs \<and> length vs = length words \<and>
           (\<forall>i < length words. vocabulary (word (words ! i)) = None \<longrightarrow> vs ! i = None) \<and>
           (\<forall>i < length words. \<forall>n. vocabulary (word (words ! i)) = Some n \<and> n < length weight
                \<longrightarrow> vs ! i = Some (weight ! n))"
proof -
  let ?vs = "map (\<lambda>e. row weight (vocabulary (word e))) words"
  have "inference a words = Inr ?vs" using assms by (simp add: inference_def)
  moreover have "length ?vs = length words" by simp
  moreover have "\<forall>i < length words. vocabulary (word (words ! i)) = None \<longrightarrow> ?vs ! i = None"
    by (simp add: row_def)
  moreover have "\<forall>i < length words. \<forall>n. vocabulary (word (words ! i)) = Some n \<and> n < length weight
      \<longrightarrow> ?vs ! i = Some (weight ! n)"
    by (simp add: row_def)
  ultimately show ?thesis by blast
qed

text \<open>
  Witness for C4: with the vocabulary a:1 and a matrix of two rows, the Words b, a give
  \<open>undefined\<close> for b and row 1 for a.
\<close>

theorem inference_no_lookup_error_witness:
  "\<exists>vs. inference \<lparr>modelPromise = Inr [[1, 2], [3, 4]],
                     vocabularyPromise = Inr [''a'' \<mapsto> 1],
                     tokenizerPromise = None\<rparr>
            [\<lparr>word = ''b'', count = Number 1\<rparr>, \<lparr>word = ''a'', count = Number 2\<rparr>] = Inr vs \<and>
        length vs = 2 \<and> vs ! 0 = None \<and> vs ! 1 = Some [3, 4]"
proof -
  let ?a = "\<lparr>modelPromise = Inr [[1, 2], [3, 4 :: real]],
             vocabularyPromise = Inr [''a'' \<mapsto> 1 :: nat],
             tokenizerPromise = None\<rparr>"
  let ?words = "[\<lparr>word = ''b'', count = Number 1\<rparr>, \<lparr>word = ''a'', count = Number 2\<rparr>]"
  have m: "modelPromise ?a = Inr [[1, 2], [3, 4]]" by simp
  have v: "vocabularyPromise ?a = Inr [''a'' \<mapsto> 1]" by simp
  obtain vs where vs: "inference ?a ?words = Inr vs" "length vs = length ?words"
    "\<forall>i < length ?words. [''a'' \<mapsto> 1 :: nat] (word (?words ! i)) = None \<longrightarrow> vs ! i = None"
    "\<forall>i < length ?words. \<forall>n. [''a'' \<mapsto> 1 :: nat] (word (?words ! i)) = Some n \<and>
        n < length [[1, 2], [3, 4 :: real]] \<longrightarrow> vs ! i = Some ([[1, 2], [3, 4]] ! n)"
    using inference_no_lookup_error [OF m v, of ?words] by blast
  have "vs ! 0 = None" using vs(3) [rule_format, of 0] by simp
  moreover have "vs ! 1 = Some [3, 4]" using vs(4) [rule_format, of 1 1] by simp
  ultimately show ?thesis using vs(1,2) by simp
qed

text \<open>
  Counterexample to C4 as stated: the word b is absent from the vocabulary, and
  \<open>inference\<close> returns normally, with \<open>undefined\<close> in the place of its vector.
\<close>

theorem inference_lookup_counterexample:
  "inference \<lparr>modelPromise = Inr [[1, 2], [3, 4]],
              vocabularyPromise = Inr [''a'' \<mapsto> 1],
              tokenizerPromise = None\<rparr>
     [\<lparr>word = ''b'', count = Number 1\<rparr>, \<lparr>word = ''a'', count = Number 2\<rparr>]
   = Inr [None, Some [3, 4]]"
  by (simp add: inference_def row_def)

section \<open>Radius Scaler: proofs\<close>

lemma extent_loop_numbers:
  "extent_loop (map Number ns) (Some (Number lo, Number hi)) =
     Some (Number (fold min ns lo), Number (fold max ns hi))"
proof (induction ns arbitrary: lo hi)
  case Nil
  show ?case by simp
next
  case (Cons n ns)
  have "(if n < lo then n else lo) = min n lo" "(if hi < n then n else hi) = max n hi"
    by (auto simp: min_def max_def)
  then show ?case using Cons by (simp add: js_less_def)
qed

lemma extent_numbers:
  assumes "ns \<noteq> []"
  shows "extent (map Number ns) = Some (Number (Min (set ns)), Number (Max (set ns)))"
proof -
  obtain n ms where ns: "ns = n # ms" using assms by (cases ns) auto
  have "fold min ms n = Min (set ns)" "fold max ms n = Max (set ns)"
    unfolding ns by (simp_all only: Min.set_eq_fold Max.set_eq_fold)
  then show ?thesis
    by (simp add: ns extent_def js_geq_def extent_loop_numbers)
qed

lemma scaleSqrt_numbers:
  assumes "a \<le> b"
  shows "scaleSqrt (Some (real a), Some (real b)) (lo, hi) (Number c) =
     Some (if a < b
           then lo * (1 - (sqrt (real c) - sqrt (real a)) / (sqrt (real b) - sqrt (real a))) +
                hi * ((sqrt (real c) - sqrt (real a)) / (sqrt (real b) - sqrt (real a)))
           else lo * (1 - 1 / 2) + hi * (1 / 2))"
proof (cases "a < b")
  case True
  then show ?thesis
    by (simp add: to_number_def scaleSqrt_def transformSqrt_def bimap_def normalize_def
        interpolateNumber_def)
next
  case False
  then have "a = b" using assms by simp
  then show ?thesis
    by (simp add: to_number_def scaleSqrt_def transformSqrt_def bimap_def normalize_def
        interpolateNumber_def)
qed

lemma rScale_numbers:
  assumes "ns \<noteq> []" "map count words = map Number ns"
  shows "rScale lo hi words (Number c) =
     Some (if Min (set ns) < Max (set ns)
           then lo * (1 - (sqrt (real c) - sqrt (real (Min (set ns)))) /
                          (sqrt (real (Max (set ns))) - sqrt (real (Min (set ns))))) +
                hi * ((sqrt (real c) - sqrt (real (Min (set ns)))) /
                          (sqrt (real (Max (set ns))) - sqrt (real (Min (set ns)))))
           else lo * (1 - 1 / 2) + hi * (1 / 2))"
proof -
  have le: "Min (set ns) \<le> Max (set ns)" using assms(1) by simp
  have "rScale lo hi words (Number c) =
      scaleSqrt (Some (real (Min (set ns))), Some (real (Max (set ns)))) (lo, hi) (Number c)"
    by (simp add: rScale_def assms(2) extent_numbers [OF assms(1)] domain_def to_number_def)
  then show ?thesis by (simp only: scaleSqrt_numbers [OF le])
qed

text \<open>
  Claim C9. For every non-empty Word list in which all counts are the same number, the
  scale gives every Word the midpoint \<open>(minR + maxR) / 2\<close> of the range.
\<close>

theorem rScale_equal_counts:
  assumes "words \<noteq> []" "\<forall>w \<in> set words. count w = Number c"
  shows "\<forall>w \<in> set words. rScale lo hi words (count w) = Some ((lo + hi) / 2)"
proof
  fix w assume w: "w \<in> set words"
  let ?ns = "map (\<lambda>w. c) words"
  have ne: "?ns \<noteq> []" using assms(1) by simp
  have counts: "map count words = map Number ?ns" using assms(2) by simp
  have "set ?ns = {c}" using assms(1) by (cases words) auto
  then have "\<not> Min (set ?ns) < Max (set ?ns)" by simp
  then have "rScale lo hi words (Number c) = Some (lo * (1 - 1 / 2) + hi * (1 / 2))"
    using rScale_numbers [OF ne counts, of lo hi c] by simp
  also have "lo * (1 - 1 / 2) + hi * (1 / 2) = (lo + hi) / 2" by (simp add: field_simps)
  finally show "rScale lo hi words (count w) = Some ((lo + hi) / 2)"
    using assms(2) w by simp
qed

text \<open>Witness for C9: two Words of count 2 and the range 6 to 30 give the radius 18.\<close>

theorem rScale_equal_counts_witness:
  "rScale 6 30 [\<lparr>word = ''a'', count = Number 2\<rparr>, \<lparr>word = ''b'', count = Number 2\<rparr>] (Number 2)
     = Some 18"
proof -
  let ?words = "[\<lparr>word = ''a'', count = Number 2\<rparr>, \<lparr>word = ''b'', count = Number 2\<rparr>]"
  have ne: "?words \<noteq> []" by simp
  have eq: "\<forall>w \<in> set ?words. count w = Number 2" by simp
  have "\<forall>w \<in> set ?words. rScale 6 30 ?words (count w) = Some ((6 + 30) / 2)"
    using rScale_equal_counts [OF ne eq] .
  then show ?thesis by simp
qed

text \<open>
  Claim C3, as the code has it. For every Word list with numeric counts whose minimum
  \<open>cmin\<close> is less than its maximum \<open>cmax\<close>, the radius of the count \<open>c\<close> is
  \<open>minR + (maxR - minR) * (sqrt c - sqrt cmin) / (sqrt cmax - sqrt cmin)\<close>: the scale is
  linear in the square root of the count. The minimum count gets \<open>minR\<close>, the maximum
  count gets \<open>maxR\<close>, and when \<open>minR \<le> maxR\<close> a larger count never gets a smaller
  radius, equal counts getting equal radii.
\<close>

theorem rScale_law:
  assumes "ns \<noteq> []" "map count words = map Number ns"
    and "cmin = Min (set ns)" "cmax = Max (set ns)" "cmin < cmax"
  shows "(\<forall>c. rScale lo hi words (Number c) =
              Some (lo + (hi - lo) *
                ((sqrt (real c) - sqrt (real cmin)) / (sqrt (real cmax) - sqrt (real cmin))))) \<and>
         rScale lo hi words (Number cmin) = Some lo \<and>
         rScale lo hi words (Number cmax) = Some hi \<and>
         (lo \<le> hi \<longrightarrow>
            (\<forall>c1 c2 r1 r2. rScale lo hi words (Number c1) = Some r1 \<and>
                            rScale lo hi words (Number c2) = Some r2 \<longrightarrow>
               (c1 < c2 \<longrightarrow> r1 \<le> r2) \<and> (c1 = c2 \<longrightarrow> r1 = r2)))"
proof -
  let ?w = "sqrt (real cmax) - sqrt (real cmin)"
  let ?t = "\<lambda>c. (sqrt (real c) - sqrt (real cmin)) / ?w"
  have pos: "0 < ?w" using assms(5) by simp
  have alg: "lo * (1 - t) + hi * t = lo + (hi - lo) * t" for t :: real
    by (simp add: algebra_simps)
  have law: "rScale lo hi words (Number c) = Some (lo + (hi - lo) * ?t c)" for c
  proof -
    have "rScale lo hi words (Number c) = Some (lo * (1 - ?t c) + hi * ?t c)"
      using rScale_numbers [OF assms(1,2), of lo hi c] assms(3,4,5) by simp
    also have "lo * (1 - ?t c) + hi * ?t c = lo + (hi - lo) * ?t c" by (rule alg)
    finally show ?thesis .
  qed
  have "?t cmin = 0" by simp
  then have lo: "rScale lo hi words (Number cmin) = Some lo" using law [of cmin] by simp
  have "?t cmax = 1" using pos by simp
  then have hi: "rScale lo hi words (Number cmax) = Some hi" using law [of cmax] by simp
  have mono: "(c1 < c2 \<longrightarrow> r1 \<le> r2) \<and> (c1 = c2 \<longrightarrow> r1 = r2)"
    if "lo \<le> hi" and r: "rScale lo hi words (Number c1) = Some r1"
      "rScale lo hi words (Number c2) = Some r2" for c1 c2 r1 r2
  proof -
    have r1: "r1 = lo + (hi - lo) * ?t c1" and r2: "r2 = lo + (hi - lo) * ?t c2"
      using r law by simp_all
    have "?t c1 \<le> ?t c2" if "c1 < c2"
      using that pos by (simp add: divide_right_mono)
    then have "(hi - lo) * ?t c1 \<le> (hi - lo) * ?t c2" if "c1 < c2"
      using that \<open>lo \<le> hi\<close> by (intro mult_left_mono) simp_all
    then have "r1 \<le> r2" if "c1 < c2"
      using that unfolding r1 r2 by (simp only: add_left_mono)
    moreover have "r1 = r2" if "c1 = c2" using that r by simp
    ultimately show ?thesis by blast
  qed
  show ?thesis using law lo hi mono by blast
qed

text \<open>
  Witness for C3: the counts 1, 4, 9 and the range 6 to 30 give the radii 6, 18, 30.
\<close>

theorem rScale_law_witness:
  "rScale 6 30 [\<lparr>word = ''a'', count = Number 1\<rparr>, \<lparr>word = ''b'', count = Number 4\<rparr>,
                \<lparr>word = ''c'', count = Number 9\<rparr>] (Number 1) = Some 6 \<and>
   rScale 6 30 [\<lparr>word = ''a'', count = Number 1\<rparr>, \<lparr>word = ''b'', count = Number 4\<rparr>,
                \<lparr>word = ''c'', count = Number 9\<rparr>] (Number 4) = Some 18 \<and>
   rScale 6 30 [\<lparr>word = ''a'', count = Number 1\<rparr>, \<lparr>word = ''b'', count = Number 4\<rparr>,
                \<lparr>word = ''c'', count = Number 9\<rparr>] (Number 9) = Some 30"
proof -
  let ?words = "[\<lparr>word = ''a'', count = Number 1\<rparr>, \<lparr>word = ''b'', count = Number 4\<rparr>,
                 \<lparr>word = ''c'', count = Number 9\<rparr>]"
  let ?ns = "[1, 4, 9 :: nat]"
  have ne: "?ns \<noteq> []" by simp
  have counts: "map count ?words = map Number ?ns" by simp
  have lo: "(1::nat) = Min (set ?ns)" by simp
  have hi: "(9::nat) = Max (set ?ns)" by simp
  have lt: "(1::nat) < 9" by simp
  note law = rScale_law [OF ne counts lo hi lt, of 6 30]
  have "rScale 6 30 ?words (Number 4) =
      Some (6 + (30 - 6) * ((sqrt (real 4) - sqrt (real 1)) / (sqrt (real 9) - sqrt (real 1))))"
    using law by blast
  moreover have "sqrt (real 4) = 2" "sqrt (real 9) = 3" by simp_all
  ultimately have "rScale 6 30 ?words (Number 4) = Some 18" by simp
  then show ?thesis using law by blast
qed

text \<open>
  Counterexample to C3 as stated: with the counts 1, 4, 9 and the range 6 to 30 the count
  4 gets the radius 18, not \<open>6 + 24 * sqrt (3 / 8)\<close>; and with the range 30 to 6 the
  count 1 gets 30 and the larger count 4 gets 18.
\<close>

theorem rScale_law_counterexample:
  "rScale 6 30 [\<lparr>word = ''a'', count = Number 1\<rparr>, \<lparr>word = ''b'', count = Number 4\<rparr>,
                \<lparr>word = ''c'', count = Number 9\<rparr>] (Number 4) = Some 18 \<and>
   6 + (30 - 6) * sqrt ((4 - 1) / (9 - 1)) \<noteq> (18::real) \<and>
   rScale 30 6 [\<lparr>word = ''a'', count = Number 1\<rparr>, \<lparr>word = ''b'', count = Number 4\<rparr>,
                \<lparr>word = ''c'', count = Number 9\<rparr>] (Number 1) = Some 30 \<and>
   rScale 30 6 [\<lparr>word = ''a'', count = Number 1\<rparr>, \<lparr>word = ''b'', count = Number 4\<rparr>,
                \<lparr>word = ''c'', count = Number 9\<rparr>] (Number 4) = Some 18 \<and>
   \<not> ((30::real) \<le> 18)"
proof -
  let ?words = "[\<lparr>word = ''a'', count = Number 1\<rparr>, \<lparr>word = ''b'', count = Number 4\<rparr>,
                 \<lparr>word = ''c'', count = Number 9\<rparr>]"
  let ?ns = "[1, 4, 9 :: nat]"
  have ne: "?ns \<noteq> []" by simp
  have counts: "map count ?words = map Number ?ns" by simp
  have roots: "sqrt (real 4) = 2" "sqrt (real 9) = 3" "sqrt (real 1) = 1" by simp_all
  have a: "rScale lo hi ?words (Number 4) = Some (lo * (1 / 2) + hi * (1 / 2))" for lo hi
    using rScale_numbers [OF ne counts, of lo hi 4] roots by simp
  have b: "rScale lo hi ?words (Number 1) = Some lo" for lo hi
    using rScale_numbers [OF ne counts, of lo hi 1] roots by simp
  have "sqrt (3 / 8) \<noteq> sqrt (1 / 4)" by simp
  moreover have "sqrt (1 / 4) = 1 / 2" by (simp add: real_sqrt_divide)
  ultimately have c: "6 + (30 - 6) * sqrt ((4 - 1) / (9 - 1)) \<noteq> (18::real)" by simp
  show ?thesis using a [of 6 30] a [of 30 6] b [of 30 6] c by simp
qed

section \<open>The pipeline: proofs\<close>

lemma forEach_nth:
  assumes "forEach scale xy groups i ws = Inr bs"
  shows "length bs = length ws \<and>
     (\<forall>j < length ws. i + j < length xy \<and>
        bs ! j = \<lparr>word = word (ws ! j), count = count (ws ! j),
                  x = fst (xy ! (i + j)) * 600, y = snd (xy ! (i + j)) * 600,
                  x0 = fst (xy ! (i + j)) * 600, y0 = snd (xy ! (i + j)) * 600,
                  group = (if i + j < length groups then Some (groups ! (i + j)) else None),
                  r = scale (count (ws ! j)), index = None, vx = None, vy = None\<rparr>)"
  using assms
proof (induction ws arbitrary: i bs)
  case Nil
  then show ?case by simp
next
  case (Cons w ws)
  from Cons.prems have i: "i < length xy"
    by (simp split: if_splits)
  then obtain cs where cs: "forEach scale xy groups (i + 1) ws = Inr cs"
    and bs: "bs = \<lparr>word = word w, count = count w,
                  x = fst (xy ! i) * 600, y = snd (xy ! i) * 600,
                  x0 = fst (xy ! i) * 600, y0 = snd (xy ! i) * 600,
                  group = (if i < length groups then Some (groups ! i) else None),
                  r = scale (count w), index = None, vx = None, vy = None\<rparr> # cs"
    using Cons.prems by (auto split: sum.splits)
  note ih = Cons.IH [OF cs]
  show ?case
  proof (intro conjI allI impI)
    show "length bs = length (w # ws)" using ih bs by simp
  next
    fix j assume j: "j < length (w # ws)"
    show "i + j < length xy" using ih i j by (cases j) auto
  next
    fix j assume j: "j < length (w # ws)"
    show "bs ! j = \<lparr>word = word ((w # ws) ! j), count = count ((w # ws) ! j),
                  x = fst (xy ! (i + j)) * 600, y = snd (xy ! (i + j)) * 600,
                  x0 = fst (xy ! (i + j)) * 600, y0 = snd (xy ! (i + j)) * 600,
                  group = (if i + j < length groups then Some (groups ! (i + j)) else None),
                  r = scale (count ((w # ws) ! j)), index = None, vx = None, vy = None\<rparr>"
      using ih bs j by (cases j) auto
  qed
qed

lemma simulation_length: "length (simulation lib setup nodes) = length nodes"
  by (simp add: simulation_def Let_def)

lemma simulation_nth:
  assumes "i < length nodes"
  shows "simulation lib setup nodes ! i =
     (nodes ! i)\<lparr>x := fst (fst (forceSimulation lib setup
                          (map (\<lambda>n. ((x n, y n), (vx n, vy n))) nodes) i)),
                 y := snd (fst (forceSimulation lib setup
                          (map (\<lambda>n. ((x n, y n), (vx n, vy n))) nodes) i)),
                 index := Some i,
                 vx := Some (fst (snd (forceSimulation lib setup
                          (map (\<lambda>n. ((x n, y n), (vx n, vy n))) nodes) i))),
                 vy := Some (snd (snd (forceSimulation lib setup
                          (map (\<lambda>n. ((x n, y n), (vx n, vy n))) nodes) i)))\<rparr>"
  using assms
  by (simp add: simulation_def Let_def nth_enumerate_eq case_prod_unfold)

lemma improveLayout_length: "length (improveLayout lib words) = length words"
  by (simp add: improveLayout_def simulation_length)

lemma improveLayout_nth:
  assumes "i < length words"
  shows "\<exists>a b c d. improveLayout lib words ! i =
           (words ! i)\<lparr>x := a, y := b, index := Some i, vx := Some c, vy := Some d\<rparr>"
  using assms by (simp only: improveLayout_def simulation_nth) blast

lemma visualize_stages:
  assumes "visualize a lib text opts = Inr ws"
  shows "\<exists>tokens wordVector xy groups placed.
      tokenize a text = Inr tokens \<and>
      inference a (countWords tokens) = Inr wordVector \<and>
      dimensionalityReduction lib wordVector = Inr xy \<and>
      clustering lib xy (numClusters opts) = Inr groups \<and>
      forEach (rScale (minR opts) (maxR opts) (countWords tokens)) xy groups 0 (countWords tokens)
        = Inr placed \<and>
      ws = improveLayout lib placed"
  using assms by (auto simp: visualize_def Let_def split: sum.splits)

lemma inference_rows:
  assumes "inference a words = Inr vs"
  shows "\<exists>weight vocabulary.
      modelPromise a = Inr weight \<and> vocabularyPromise a = Inr vocabulary \<and>
      vs = map (\<lambda>e. row weight (vocabulary (word e))) words"
  using assms by (auto simp: inference_def split: sum.splits)

text \<open>
  What the libraries decide: with no Words the pipeline returns the empty list when the
  projection and the clustering return on the empty input, and a failure of either
  library is the failure of \<open>visualize\<close>. \<open>clustering\<close> hands \<open>numClusters\<close> to
  \<open>skmeans\<close> as it is.
\<close>

lemma visualize_no_words:
  assumes "tokenize a text = Inr []" "modelPromise a = Inr weight"
    and "dimensionalityReduction lib [] = Inr xy"
    and "clustering lib xy (numClusters opts) = Inr groups"
  shows "visualize a lib text opts = Inr []"
proof -
  have "countWords [] = []" by (simp add: countWords_def)
  moreover have "inference a [] = Inr []"
    using assms(1,2) by (auto simp: inference_def tokenize_def split: sum.splits)
  ultimately show ?thesis
    using assms by (simp add: visualize_def improveLayout_def simulation_def)
qed

lemma visualize_library_failure:
  assumes "tokenize a text = Inr tokens" "inference a (countWords tokens) = Inr wordVector"
  shows "dimensionalityReduction lib wordVector = Inl e \<Longrightarrow> visualize a lib text opts = Inl e"
    and "dimensionalityReduction lib wordVector = Inr xy \<Longrightarrow>
         clustering lib xy (numClusters opts) = Inl e \<Longrightarrow> visualize a lib text opts = Inl e"
  using assms by (simp_all add: visualize_def)

text \<open>
  Claim C1. Whenever \<open>visualize\<close> returns a Word list, that list is the declutterer's
  output on the list \<open>placed\<close> that the loop over the Words leaves, and both have one
  Word per entry of the Frequency Counter's output, in the same order; so has the list of
  vectors, whose entry \<open>i\<close> is the lookup of the word of entry \<open>i\<close>. The Word at index
  \<open>i\<close> keeps the word and the count of the counter's entry \<open>i\<close>; the loop gives it row
  \<open>i\<close> of the projection, times 600, as \<open>x\<close>, \<open>y\<close>, \<open>x0\<close> and \<open>y0\<close>, entry
  \<open>i\<close> of the cluster assignment as its group, and the scale's value at its own count as
  its radius; after the declutterer it still has that \<open>x0\<close>, \<open>y0\<close>, group and radius.
\<close>

theorem visualize_positional:
  assumes "visualize a lib text opts = Inr ws"
  shows "\<exists>tokens wordVector xy groups placed.
     tokenize a text = Inr tokens \<and>
     inference a (countWords tokens) = Inr wordVector \<and>
     dimensionalityReduction lib wordVector = Inr xy \<and>
     clustering lib xy (numClusters opts) = Inr groups \<and>
     ws = improveLayout lib placed \<and>
     length wordVector = length (countWords tokens) \<and>
     length placed = length (countWords tokens) \<and>
     length ws = length (countWords tokens) \<and>
     (\<exists>weight vocabulary.
        modelPromise a = Inr weight \<and> vocabularyPromise a = Inr vocabulary \<and>
        (\<forall>i < length (countWords tokens).
           wordVector ! i = row weight (vocabulary (word (countWords tokens ! i))))) \<and>
     (\<forall>i < length (countWords tokens). i < length xy \<and>
        word (placed ! i) = word (countWords tokens ! i) \<and>
        count (placed ! i) = count (countWords tokens ! i) \<and>
        x (placed ! i) = fst (xy ! i) * 600 \<and> y (placed ! i) = snd (xy ! i) * 600 \<and>
        x0 (placed ! i) = fst (xy ! i) * 600 \<and> y0 (placed ! i) = snd (xy ! i) * 600 \<and>
        group (placed ! i) = (if i < length groups then Some (groups ! i) else None) \<and>
        r (placed ! i) =
          rScale (minR opts) (maxR opts) (countWords tokens) (count (countWords tokens ! i)) \<and>
        word (ws ! i) = word (countWords tokens ! i) \<and>
        count (ws ! i) = count (countWords tokens ! i) \<and>
        x0 (ws ! i) = fst (xy ! i) * 600 \<and> y0 (ws ! i) = snd (xy ! i) * 600 \<and>
        group (ws ! i) = (if i < length groups then Some (groups ! i) else None) \<and>
        r (ws ! i) =
          rScale (minR opts) (maxR opts) (countWords tokens) (count (countWords tokens ! i)))"
proof -
  obtain tokens wordVector xy groups placed where
    st: "tokenize a text = Inr tokens" "inference a (countWords tokens) = Inr wordVector"
      "dimensionalityReduction lib wordVector = Inr xy"
      "clustering lib xy (numClusters opts) = Inr groups"
    and fe: "forEach (rScale (minR opts) (maxR opts) (countWords tokens)) xy groups 0
        (countWords tokens) = Inr placed"
    and ws: "ws = improveLayout lib placed"
    using visualize_stages [OF assms] by blast
  let ?cw = "countWords tokens"
  note p = forEach_nth [OF fe]
  have lp: "length placed = length ?cw" using p by simp
  have lw: "length ws = length ?cw" using lp ws by (simp add: improveLayout_length)
  obtain weight vocabulary where
    loaded: "modelPromise a = Inr weight" "vocabularyPromise a = Inr vocabulary"
    and wv: "wordVector = map (\<lambda>e. row weight (vocabulary (word e))) ?cw"
    using inference_rows [OF st(2)] by blast
  have lv: "length wordVector = length ?cw" using wv by simp
  have rows: "\<exists>weight vocabulary.
        modelPromise a = Inr weight \<and> vocabularyPromise a = Inr vocabulary \<and>
        (\<forall>i < length ?cw. wordVector ! i = row weight (vocabulary (word (?cw ! i))))"
    using loaded wv by auto
  have each: "i < length xy \<and>
        word (placed ! i) = word (?cw ! i) \<and> count (placed ! i) = count (?cw ! i) \<and>
        x (placed ! i) = fst (xy ! i) * 600 \<and> y (placed ! i) = snd (xy ! i) * 600 \<and>
        x0 (placed ! i) = fst (xy ! i) * 600 \<and> y0 (placed ! i) = snd (xy ! i) * 600 \<and>
        group (placed ! i) = (if i < length groups then Some (groups ! i) else None) \<and>
        r (placed ! i) = rScale (minR opts) (maxR opts) ?cw (count (?cw ! i)) \<and>
        word (ws ! i) = word (?cw ! i) \<and> count (ws ! i) = count (?cw ! i) \<and>
        x0 (ws ! i) = fst (xy ! i) * 600 \<and> y0 (ws ! i) = snd (xy ! i) * 600 \<and>
        group (ws ! i) = (if i < length groups then Some (groups ! i) else None) \<and>
        r (ws ! i) = rScale (minR opts) (maxR opts) ?cw (count (?cw ! i))"
    if i: "i < length ?cw" for i
  proof -
    have pi: "i < length xy" and pl: "placed ! i =
        \<lparr>word = word (?cw ! i), count = count (?cw ! i),
         x = fst (xy ! i) * 600, y = snd (xy ! i) * 600,
         x0 = fst (xy ! i) * 600, y0 = snd (xy ! i) * 600,
         group = (if i < length groups then Some (groups ! i) else None),
         r = rScale (minR opts) (maxR opts) ?cw (count (?cw ! i)),
         index = None, vx = None, vy = None\<rparr>"
      using p i by simp_all
    obtain c d e f where
      "ws ! i = (placed ! i)\<lparr>x := c, y := d, index := Some i, vx := Some e, vy := Some f\<rparr>"
      using improveLayout_nth [of i placed lib] i lp ws by auto
    then show ?thesis using pi pl by simp
  qed
  show ?thesis
    using st ws lv lp lw rows each by blast
qed

text \<open>
  Witness for C1: the tokens a, b, a, b, b with a projection that puts every word at
  (1/2, 1/4) and one cluster give two Words, a then b, with \<open>x0 = 300\<close>, \<open>y0 = 150\<close>
  and group 0.
\<close>

theorem visualize_positional_witness:
  "\<exists>ws. visualize
          \<lparr>modelPromise = Inr [[1, 0], [0, 1], [1, 1]],
           vocabularyPromise = Inr [''a'' \<mapsto> 0, ''b'' \<mapsto> 2],
           tokenizerPromise = Some (\<lambda>t. [''a'', ''b'', ''a'', ''b'', ''b''])\<rparr>
          \<lparr>TSNE = (\<lambda>opts vs. Inr (map (\<lambda>v. (1 / 2, 1 / 4)) vs)),
           skmeans = (\<lambda>xy k. Inr (map (\<lambda>p. 0) xy)),
           forceSimulation = (\<lambda>setup start i. ((0, 0), (0, 0)))\<rparr>
          ''t'' \<lparr>numClusters = 1, minR = 6, maxR = 30\<rparr> = Inr ws \<and>
        length ws = 2 \<and> word (ws ! 0) = ''a'' \<and> word (ws ! 1) = ''b'' \<and>
        x0 (ws ! 0) = 300 \<and> y0 (ws ! 0) = 150 \<and> group (ws ! 1) = Some 0"
proof -
  let ?a = "\<lparr>modelPromise = Inr [[1, 0], [0, 1], [1, 1 :: real]],
             vocabularyPromise = Inr [''a'' \<mapsto> 0 :: nat, ''b'' \<mapsto> 2],
             tokenizerPromise = Some (\<lambda>t :: string. [''a'', ''b'', ''a'', ''b'', ''b''])\<rparr>"
  let ?lib = "\<lparr>TSNE = (\<lambda>(opts :: tsne_options) (vs :: vector option list).
                         Inr (map (\<lambda>v. (1 / 2 :: real, 1 / 4 :: real)) vs) :: error + (real \<times> real) list),
               skmeans = (\<lambda>(xy :: (real \<times> real) list) (k :: int).
                         Inr (map (\<lambda>p. 0 :: nat) xy) :: error + nat list),
               forceSimulation = (\<lambda>(setup :: force_setup)
                         (start :: ((real \<times> real) \<times> (real option \<times> real option)) list) (i :: nat).
                         ((0 :: real, 0 :: real), (0 :: real, 0 :: real)))\<rparr>"
  let ?opts = "\<lparr>numClusters = 1, minR = 6, maxR = 30\<rparr>"
  let ?cw = "[\<lparr>word = ''a'', count = Number 2\<rparr>, \<lparr>word = ''b'', count = Number 3\<rparr>]"
  let ?xy = "[(1 / 2, 1 / 4), (1 / 2, 1 / 4 :: real)] :: (real \<times> real) list"
  have tok: "tokenize ?a ''t'' = Inr [''a'', ''b'', ''a'', ''b'', ''b'']"
    by (simp add: tokenize_def has_property_def)
  have cw: "countWords [''a'', ''b'', ''a'', ''b'', ''b''] = ?cw"
    by (simp add: countWords_def count_word_def assign_def array_index_def is_digit_def
        object_prototype_def plus_one_def)
  have inf: "inference ?a ?cw = Inr [Some [1, 0], Some [1, 1]]"
    by (simp add: inference_def row_def)
  have dr: "dimensionalityReduction ?lib [Some [1, 0], Some [1, 1]] = Inr ?xy"
    by (simp add: dimensionalityReduction_def)
  have cl: "clustering ?lib ?xy 1 = Inr [0, 0]"
    by (simp add: clustering_def)
  have "\<exists>ws. visualize ?a ?lib ''t'' ?opts = Inr ws"
    by (simp add: visualize_def Let_def tok cw inf dr cl)
  then obtain ws where run: "visualize ?a ?lib ''t'' ?opts = Inr ws" by blast
  obtain tokens wordVector xy groups where
    st: "tokenize ?a ''t'' = Inr tokens" "inference ?a (countWords tokens) = Inr wordVector"
      "dimensionalityReduction ?lib wordVector = Inr xy"
      "clustering ?lib xy (numClusters ?opts) = Inr groups"
    and len: "length ws = length (countWords tokens)"
    and each: "\<forall>i < length (countWords tokens).
        word (ws ! i) = word (countWords tokens ! i) \<and>
        x0 (ws ! i) = fst (xy ! i) * 600 \<and>
        y0 (ws ! i) = snd (xy ! i) * 600 \<and>
        group (ws ! i) = (if i < length groups then Some (groups ! i) else None)"
    using visualize_positional [OF run] by blast
  have tokens: "countWords tokens = ?cw" using st(1) tok cw by simp
  have wv: "wordVector = [Some [1, 0], Some [1, 1]]" using st(2) inf tokens by simp
  have xy: "xy = ?xy" using st(3) dr wv by simp
  have groups: "groups = [0, 0]" using st(4) cl xy by simp
  have "length (ws) = 2" using len tokens by simp
  moreover have "word (ws ! 0) = ''a''"
    "x0 (ws ! 0) = 300" "y0 (ws ! 0) = 150"
    using each [rule_format, of 0] tokens xy by simp_all
  moreover have "word (ws ! 1) = ''b''"
    "group (ws ! 1) = Some 0"
    using each [rule_format, of 1] tokens groups by simp_all
  ultimately show ?thesis using run by blast
qed

text \<open>
  Claim C7, as the code has it. \<open>improveLayout\<close> returns as many Words as it was given,
  in the same order. To each Word the simulation it starts writes \<open>x\<close> and \<open>y\<close>, and also
  its own \<open>index\<close>, \<open>vx\<close> and \<open>vy\<close>: the position is the one the simulation computes
  from the positions and velocities of the Words, with strength 10, collision radius
  \<open>r + 1\<close>, 30 collision iterations, targets 0 and 0, and 100 ticks; the index is the place
  of the Word in the list. The word, the count, the group, the radius, \<open>x0\<close> and \<open>y0\<close>
  are unchanged. On a list as the loop of \<open>visualize\<close> leaves it, \<open>x0\<close> and \<open>y0\<close> after
  the relaxation are the position before it, which is the row of the projection times 600.
\<close>

theorem improveLayout_frame:
  "length (improveLayout lib words) = length words \<and>
   (\<forall>i < length words.
      (\<exists>a b c d. improveLayout lib words ! i =
          (words ! i)\<lparr>x := a, y := b, index := Some i, vx := Some c, vy := Some d\<rparr>) \<and>
      (x (improveLayout lib words ! i), y (improveLayout lib words ! i)) =
        fst (forceSimulation lib
               \<lparr>charge_strength = 10,
                collide_radius = map (\<lambda>w. map_option (\<lambda>a. a + 1) (r w)) words,
                collide_iterations = 30, forceX = 0, forceY = 0, ticks = 100\<rparr>
               (map (\<lambda>n. ((x n, y n), (vx n, vy n))) words) i) \<and>
      index (improveLayout lib words ! i) = Some i \<and>
      vx (improveLayout lib words ! i) \<noteq> None \<and>
      vy (improveLayout lib words ! i) \<noteq> None \<and>
      word (improveLayout lib words ! i) = word (words ! i) \<and>
      count (improveLayout lib words ! i) = count (words ! i) \<and>
      group (improveLayout lib words ! i) = group (words ! i) \<and>
      r (improveLayout lib words ! i) = r (words ! i) \<and>
      x0 (improveLayout lib words ! i) = x0 (words ! i) \<and>
      y0 (improveLayout lib words ! i) = y0 (words ! i)) \<and>
   (\<forall>scale xy groups entries.
      forEach scale xy groups 0 entries = Inr words \<longrightarrow>
      (\<forall>i < length words. i < length xy \<and>
         x0 (improveLayout lib words ! i) = x (words ! i) \<and>
         y0 (improveLayout lib words ! i) = y (words ! i) \<and>
         x0 (improveLayout lib words ! i) = fst (xy ! i) * 600 \<and>
         y0 (improveLayout lib words ! i) = snd (xy ! i) * 600))"
proof -
  let ?cfg = "\<lparr>charge_strength = 10,
                collide_radius = map (\<lambda>w. map_option (\<lambda>a. a + 1) (r w)) words,
                collide_iterations = 30, forceX = 0, forceY = 0, ticks = 100\<rparr>"
  let ?out = "\<lambda>i. forceSimulation lib ?cfg (map (\<lambda>n. ((x n, y n), (vx n, vy n))) words) i"
  have nth: "improveLayout lib words ! i =
      (words ! i)\<lparr>x := fst (fst (?out i)), y := snd (fst (?out i)), index := Some i,
                  vx := Some (fst (snd (?out i))), vy := Some (snd (snd (?out i)))\<rparr>"
    if i: "i < length words" for i
    using i by (simp add: improveLayout_def simulation_nth)
  have frame: "(\<exists>a b c d. improveLayout lib words ! i =
          (words ! i)\<lparr>x := a, y := b, index := Some i, vx := Some c, vy := Some d\<rparr>) \<and>
      (x (improveLayout lib words ! i), y (improveLayout lib words ! i)) = fst (?out i) \<and>
      index (improveLayout lib words ! i) = Some i \<and>
      vx (improveLayout lib words ! i) \<noteq> None \<and>
      vy (improveLayout lib words ! i) \<noteq> None \<and>
      word (improveLayout lib words ! i) = word (words ! i) \<and>
      count (improveLayout lib words ! i) = count (words ! i) \<and>
      group (improveLayout lib words ! i) = group (words ! i) \<and>
      r (improveLayout lib words ! i) = r (words ! i) \<and>
      x0 (improveLayout lib words ! i) = x0 (words ! i) \<and>
      y0 (improveLayout lib words ! i) = y0 (words ! i)" if i: "i < length words" for i
  proof -
    have "\<exists>a b c d. improveLayout lib words ! i =
          (words ! i)\<lparr>x := a, y := b, index := Some i, vx := Some c, vy := Some d\<rparr>"
      using nth [OF i] by blast
    moreover have "(x (improveLayout lib words ! i), y (improveLayout lib words ! i)) = fst (?out i)"
      unfolding nth [OF i] by simp
    ultimately show ?thesis unfolding nth [OF i] by simp
  qed
  have kept: "i < length xy \<and>
         x0 (improveLayout lib words ! i) = x (words ! i) \<and>
         y0 (improveLayout lib words ! i) = y (words ! i) \<and>
         x0 (improveLayout lib words ! i) = fst (xy ! i) * 600 \<and>
         y0 (improveLayout lib words ! i) = snd (xy ! i) * 600"
    if fe: "forEach scale xy groups 0 entries = Inr words" and i: "i < length words"
    for scale xy groups entries i
  proof -
    note p = forEach_nth [OF fe]
    have "i < length entries" using p i by simp
    then have "i < length xy" "x (words ! i) = fst (xy ! i) * 600"
      "y (words ! i) = snd (xy ! i) * 600" "x0 (words ! i) = fst (xy ! i) * 600"
      "y0 (words ! i) = snd (xy ! i) * 600"
      using p by simp_all
    then show ?thesis using frame [OF i] by simp
  qed
  show ?thesis using improveLayout_length frame kept by blast
qed

text \<open>
  Witness for C7: one Word as the loop leaves it, at (300, 150) with radius 18, and a
  simulation that moves every node to the origin; \<open>x0\<close>, \<open>y0\<close> and the radius are kept,
  and the Word has got its index.
\<close>

theorem improveLayout_frame_witness:
  "x0 (improveLayout \<lparr>TSNE = (\<lambda>opts vs. Inr []), skmeans = (\<lambda>xy k. Inr []),
                       forceSimulation = (\<lambda>setup start i. ((0, 0), (0, 0)))\<rparr>
        [\<lparr>word = ''a'', count = Number 2, x = 300, y = 150, x0 = 300, y0 = 150,
          group = Some 0, r = Some 18, index = None, vx = None, vy = None\<rparr>] ! 0) = 300 \<and>
   y0 (improveLayout \<lparr>TSNE = (\<lambda>opts vs. Inr []), skmeans = (\<lambda>xy k. Inr []),
                       forceSimulation = (\<lambda>setup start i. ((0, 0), (0, 0)))\<rparr>
        [\<lparr>word = ''a'', count = Number 2, x = 300, y = 150, x0 = 300, y0 = 150,
          group = Some 0, r = Some 18, index = None, vx = None, vy = None\<rparr>] ! 0) = 150 \<and>
   r (improveLayout \<lparr>TSNE = (\<lambda>opts vs. Inr []), skmeans = (\<lambda>xy k. Inr []),
                       forceSimulation = (\<lambda>setup start i. ((0, 0), (0, 0)))\<rparr>
        [\<lparr>word = ''a'', count = Number 2, x = 300, y = 150, x0 = 300, y0 = 150,
          group = Some 0, r = Some 18, index = None, vx = None, vy = None\<rparr>] ! 0) = Some 18 \<and>
   index (improveLayout \<lparr>TSNE = (\<lambda>opts vs. Inr []), skmeans = (\<lambda>xy k. Inr []),
                       forceSimulation = (\<lambda>setup start i. ((0, 0), (0, 0)))\<rparr>
        [\<lparr>word = ''a'', count = Number 2, x = 300, y = 150, x0 = 300, y0 = 150,
          group = Some 0, r = Some 18, index = None, vx = None, vy = None\<rparr>] ! 0) = Some 0"
proof -
  let ?lib = "\<lparr>TSNE = (\<lambda>opts vs. Inr []), skmeans = (\<lambda>xy k. Inr []),
               forceSimulation = (\<lambda>setup start i. ((0, 0), (0, 0)))\<rparr>"
  let ?words = "[\<lparr>word = ''a'', count = Number 2, x = 300, y = 150, x0 = 300, y0 = 150,
                  group = Some 0, r = Some 18, index = None, vx = None, vy = None\<rparr>]"
  let ?scale = "\<lambda>c :: count_value. Some (18 :: real)"
  have fe: "forEach ?scale [(1 / 2, 1 / 4)] [0] 0 [\<lparr>word = ''a'', count = Number 2\<rparr>] = Inr ?words"
    by simp
  have i: "(0::nat) < length ?words" by simp
  note fr = improveLayout_frame [of ?lib ?words]
  note frame = fr [THEN conjunct2, THEN conjunct1, rule_format, OF i]
  note kept = fr [THEN conjunct2, THEN conjunct2, rule_format, OF fe i]
  show ?thesis using frame kept by simp
qed

text \<open>
  Counterexample to C7 as stated: on the Word that the loop of \<open>visualize\<close> leaves for
  the entry a at the row (1/2, 1/4), \<open>improveLayout\<close> also sets \<open>index\<close>, \<open>vx\<close> and
  \<open>vy\<close>, which were \<open>undefined\<close>; so the Word it returns is not the Word it was given
  with only \<open>x\<close> and \<open>y\<close> rewritten.
\<close>

theorem improveLayout_only_xy_counterexample:
  "forEach (\<lambda>c. Some 18) [(1 / 2, 1 / 4)] [0] 0 [\<lparr>word = ''a'', count = Number 2\<rparr>] =
     Inr [\<lparr>word = ''a'', count = Number 2, x = 300, y = 150, x0 = 300, y0 = 150,
           group = Some 0, r = Some 18, index = None, vx = None, vy = None\<rparr>] \<and>
   improveLayout \<lparr>TSNE = (\<lambda>opts vs. Inr []), skmeans = (\<lambda>xy k. Inr []),
                   forceSimulation = (\<lambda>setup start i. ((0, 0), (0, 0)))\<rparr>
     [\<lparr>word = ''a'', count = Number 2, x = 300, y = 150, x0 = 300, y0 = 150,
       group = Some 0, r = Some 18, index = None, vx = None, vy = None\<rparr>] =
     [\<lparr>word = ''a'', count = Number 2, x = 0, y = 0, x0 = 300, y0 = 150,
       group = Some 0, r = Some 18, index = Some 0, vx = Some 0, vy = Some 0\<rparr>] \<and>
   \<not> (\<exists>c d.
        improveLayout \<lparr>TSNE = (\<lambda>opts vs. Inr []), skmeans = (\<lambda>xy k. Inr []),
                        forceSimulation = (\<lambda>setup start i. ((0, 0), (0, 0)))\<rparr>
          [\<lparr>word = ''a'', count = Number 2, x = 300, y = 150, x0 = 300, y0 = 150,
            group = Some 0, r = Some 18, index = None, vx = None, vy = None\<rparr>] ! 0 =
        \<lparr>word = ''a'', count = Number 2, x = 300, y = 150, x0 = 300, y0 = 150,
         group = Some 0, r = Some 18, index = None, vx = None, vy = None\<rparr>\<lparr>x := c, y := d\<rparr>)"
  by (simp add: improveLayout_def simulation_def enumerate_eq_zip)

section \<open>Font Fitter and chart: proofs\<close>

lemma bisect_unfold:
  "bisect getBBox w rad family weight s =
     (if iter s < 10
      then bisect getBBox w rad family weight
         (if fits (half_diagonal (getBBox \<lparr>textContent = w, font_family = family,
                 font_weight = weight, font_size = (ok s + ng s) / 2\<rparr>)) rad
          then s\<lparr>ok := (ok s + ng s) / 2, iter := iter s + 1,
                 measured := measured s @ [\<lparr>textContent = w, font_family = family,
                   font_weight = weight, font_size = (ok s + ng s) / 2\<rparr>]\<rparr>
          else s\<lparr>ng := (ok s + ng s) / 2, iter := iter s + 1,
                 measured := measured s @ [\<lparr>textContent = w, font_family = family,
                   font_weight = weight, font_size = (ok s + ng s) / 2\<rparr>]\<rparr>)
      else s)"
  by (subst bisect.simps) (simp add: Let_def)

lemma fit_inv_step:
  assumes inv: "fit_inv d a s" and lt: "iter s < 10"
    and m: "m = (ok s + ng s) / 2"
    and t: "font_size t = m"
  shows "fit_inv d a (if d m \<le> a
           then s\<lparr>ok := m, iter := iter s + 1, measured := measured s @ [t]\<rparr>
           else s\<lparr>ng := m, iter := iter s + 1, measured := measured s @ [t]\<rparr>)"
proof -
  have gap: "ng s - ok s = 100 / 2 ^ iter s" and lo: "0 \<le> ok s" and hi: "ng s \<le> 100"
    using inv by (simp_all add: fit_inv_def)
  have pos: "0 < ng s - ok s" unfolding gap by simp
  have half: "ng s - m = 100 / 2 ^ (iter s + 1)" "m - ok s = 100 / 2 ^ (iter s + 1)"
    using gap unfolding m by (simp_all add: field_simps)
  have between: "0 \<le> m" "m \<le> 100" using pos lo hi unfolding m by simp_all
  show ?thesis
  proof (cases "d m \<le> a")
    case True
    then show ?thesis
      using inv lt half between t by (auto simp: fit_inv_def)
  next
    case False
    then show ?thesis
      using inv lt half between t by (auto simp: fit_inv_def)
  qed
qed

lemma bisect_inv:
  assumes "fit_inv (\<lambda>f. half_diagonal (getBBox \<lparr>textContent = w, font_family = family,
             font_weight = weight, font_size = f\<rparr>)) a s"
  shows "fit_inv (\<lambda>f. half_diagonal (getBBox \<lparr>textContent = w, font_family = family,
             font_weight = weight, font_size = f\<rparr>)) a (bisect getBBox w (Some a) family weight s) \<and>
         iter (bisect getBBox w (Some a) family weight s) = 10"
  using assms
proof (induction getBBox w "Some a" family weight s rule: bisect.induct)
  case (1 getBBox w family weight s)
  let ?d = "\<lambda>f. half_diagonal (getBBox \<lparr>textContent = w, font_family = family,
             font_weight = weight, font_size = f\<rparr>)"
  let ?m = "(ok s + ng s) / 2"
  let ?t = "\<lparr>textContent = w, font_family = family, font_weight = weight, font_size = ?m\<rparr>"
  show ?case
  proof (cases "iter s < 10")
    case True
    let ?s' = "if fits (?d ?m) (Some a)
           then s\<lparr>ok := ?m, iter := iter s + 1, measured := measured s @ [?t]\<rparr>
           else s\<lparr>ng := ?m, iter := iter s + 1, measured := measured s @ [?t]\<rparr>"
    have "fit_inv ?d a ?s'"
      using fit_inv_step [OF "1.prems" True refl, of ?t] by (simp add: fits_def)
    then have "fit_inv ?d a (bisect getBBox w (Some a) family weight ?s') \<and>
        iter (bisect getBBox w (Some a) family weight ?s') = 10"
      using "1.hyps" [OF True refl refl refl] by simp
    moreover have "bisect getBBox w (Some a) family weight s =
        bisect getBBox w (Some a) family weight ?s'"
      using True by (subst bisect_unfold) simp
    ultimately show ?thesis by simp
  next
    case False
    then have "iter s = 10" using "1.prems" by (simp add: fit_inv_def)
    moreover have "bisect getBBox w (Some a) family weight s = s"
      using False by (subst bisect_unfold) simp
    ultimately show ?thesis using "1.prems" by simp
  qed
qed

lemma fitting_inv:
  "fit_inv (diagonal_at getBBox w fam wt) a
     (fitting getBBox w (Some a) fam wt) \<and>
   iter (fitting getBBox w (Some a) fam wt) = 10"
proof -
  let ?d = "\<lambda>f. half_diagonal (getBBox \<lparr>textContent = w, font_family = attribute fam,
             font_weight = attribute wt, font_size = f\<rparr>)"
  have d: "diagonal_at getBBox w fam wt = ?d"
    by (rule ext) (simp add: diagonal_at_def)
  have "fit_inv ?d a \<lparr>ok = 0, ng = 100, iter = 0, measured = []\<rparr>"
    by (simp add: fit_inv_def)
  then show ?thesis unfolding d fitting_def by (rule bisect_inv)
qed

text \<open>
  Claim C8. Given a rendering capability whose half diagonal does not decrease as the font
  size grows from 0 to 100, \<open>optimalFontSize\<close> makes exactly 10 measurements, each at a
  font size from 0 to 100, and returns a font size \<open>f\<close> from 0 to 100 such that:
  whenever a font size \<open>g\<close> in that range has a half diagonal of at most the radius, so
  has \<open>f\<close>, and \<open>g \<le> f + 100 / 2^10\<close>; hence for the largest such font size \<open>F\<close>,
  \<open>f \<le> F\<close> and \<open>F - f \<le> 100 / 2^10\<close>.
\<close>

theorem optimalFontSize_fits:
  assumes mono: "\<forall>f g. 0 \<le> f \<and> f \<le> g \<and> g \<le> 100 \<longrightarrow>
      diagonal_at getBBox w fam wt f \<le> diagonal_at getBBox w fam wt g"
  shows "\<exists>f requests.
      optimalFontSize getBBox w (Some a) fam wt = (f, requests) \<and>
      length requests = 10 \<and>
      (\<forall>t \<in> set requests. 0 \<le> font_size t \<and> font_size t \<le> 100) \<and>
      0 \<le> f \<and> f \<le> 100 \<and>
      (\<forall>g. 0 \<le> g \<and> g \<le> 100 \<and> diagonal_at getBBox w fam wt g \<le> a
         \<longrightarrow> diagonal_at getBBox w fam wt f \<le> a \<and> g \<le> f + 100 / 2 ^ 10) \<and>
      (\<forall>F. 0 \<le> F \<and> F \<le> 100 \<and> diagonal_at getBBox w fam wt F \<le> a \<and>
           (\<forall>g. 0 \<le> g \<and> g \<le> 100 \<and> diagonal_at getBBox w fam wt g \<le> a \<longrightarrow> g \<le> F)
         \<longrightarrow> diagonal_at getBBox w fam wt f \<le> a \<and> f \<le> F \<and> F - f \<le> 100 / 2 ^ 10)"
proof -
  let ?d = "diagonal_at getBBox w fam wt"
  let ?s = "fitting getBBox w (Some a) fam wt"
  have inv: "fit_inv ?d a ?s" and rounds: "iter ?s = 10"
    using fitting_inv [of getBBox w fam wt a] by simp_all
  have gap: "ng ?s - ok ?s = 100 / 2 ^ 10" and lo: "0 \<le> ok ?s" and hi: "ng ?s \<le> 100"
    and okfit: "ok ?s = 0 \<or> ?d (ok ?s) \<le> a" and ngfail: "ng ?s = 100 \<or> a < ?d (ng ?s)"
    and len: "length (measured ?s) = 10"
    and sizes: "\<forall>t \<in> set (measured ?s). 0 \<le> font_size t \<and> font_size t \<le> 100"
    using inv rounds by (simp_all add: fit_inv_def)
  have lt: "ok ?s < ng ?s" using gap by (simp add: field_simps)
  have top: "ok ?s \<le> 100" using lt hi by simp
  have near: "?d (ok ?s) \<le> a \<and> g \<le> ok ?s + 100 / 2 ^ 10"
    if g: "0 \<le> g" "g \<le> 100" "?d g \<le> a" for g
  proof -
    have fit: "?d (ok ?s) \<le> a"
    proof (cases "ok ?s = 0")
      case True
      have "?d 0 \<le> ?d g" using mono g by simp
      then show ?thesis using True g(3) by simp
    next
      case False
      then show ?thesis using okfit by simp
    qed
    have above: "g \<le> ng ?s"
    proof (cases "ng ?s = 100")
      case True
      then show ?thesis using g(2) by simp
    next
      case False
      then have fail: "a < ?d (ng ?s)" using ngfail by simp
      show ?thesis
      proof (rule ccontr)
        assume "\<not> g \<le> ng ?s"
        then have "ng ?s \<le> g" by simp
        moreover have "0 \<le> ng ?s" using lo lt by simp
        ultimately have "?d (ng ?s) \<le> ?d g" using mono g(2) by simp
        then show False using fail g(3) by simp
      qed
    qed
    have "ng ?s = ok ?s + 100 / 2 ^ 10" using gap by simp
    then show ?thesis using fit above by simp
  qed
  have largest: "?d (ok ?s) \<le> a \<and> ok ?s \<le> F \<and> F - ok ?s \<le> 100 / 2 ^ 10"
    if F: "0 \<le> F" "F \<le> 100" "?d F \<le> a"
      and all: "\<forall>g. 0 \<le> g \<and> g \<le> 100 \<and> ?d g \<le> a \<longrightarrow> g \<le> F" for F
  proof -
    have n: "?d (ok ?s) \<le> a" "F \<le> ok ?s + 100 / 2 ^ 10" using near [OF F] by simp_all
    have "ok ?s \<le> F" using all lo top n(1) by simp
    then show ?thesis using n by simp
  qed
  have "optimalFontSize getBBox w (Some a) fam wt = (ok ?s, measured ?s)"
    by (simp add: optimalFontSize_def Let_def)
  then show ?thesis using len sizes lo top near largest by blast
qed

text \<open>
  Witness for C8: a box of width twice the font size and height 0 has the half diagonal
  equal to the font size; for the radius 50 the largest fitting font size is 50.
\<close>

theorem optimalFontSize_fits_witness:
  "\<exists>f requests.
      optimalFontSize (\<lambda>t. (2 * font_size t, 0)) ''a'' (Some 50) None None = (f, requests) \<and>
      length requests = 10 \<and> 0 \<le> f \<and> f \<le> 50 \<and> 50 - f \<le> 100 / 2 ^ 10"
proof -
  let ?g = "\<lambda>t :: svg_text. (2 * font_size t, 0 :: real)"
  have d: "diagonal_at ?g ''a'' None None f = \<bar>f\<bar>" for f
    by (simp add: diagonal_at_def half_diagonal_def real_sqrt_mult)
  have mono: "\<forall>f g. 0 \<le> f \<and> f \<le> g \<and> g \<le> 100 \<longrightarrow>
      diagonal_at ?g ''a'' None None f \<le> diagonal_at ?g ''a'' None None g"
    unfolding d by simp
  have largest: "0 \<le> (50::real) \<and> (50::real) \<le> 100 \<and> diagonal_at ?g ''a'' None None 50 \<le> 50 \<and>
      (\<forall>g. 0 \<le> g \<and> g \<le> 100 \<and> diagonal_at ?g ''a'' None None g \<le> 50 \<longrightarrow> g \<le> 50)"
    unfolding d by auto
  obtain f requests where
    r: "optimalFontSize ?g ''a'' (Some 50) None None = (f, requests)" "length requests = 10"
      "0 \<le> f" and
    n: "\<forall>F. 0 \<le> F \<and> F \<le> 100 \<and> diagonal_at ?g ''a'' None None F \<le> 50 \<and>
           (\<forall>g. 0 \<le> g \<and> g \<le> 100 \<and> diagonal_at ?g ''a'' None None g \<le> 50 \<longrightarrow> g \<le> F)
         \<longrightarrow> diagonal_at ?g ''a'' None None f \<le> 50 \<and> f \<le> F \<and> F - f \<le> 100 / 2 ^ 10"
    using optimalFontSize_fits [OF mono, of 50] by blast
  have "f \<le> 50 \<and> 50 - f \<le> 100 / 2 ^ 10" using n largest by blast
  then show ?thesis using r by blast
qed

text \<open>
  Outside C8: when no font size from 0 to 100 fits the radius, or the radius is no number,
  every round fails and the result is the initial \<open>ok\<close>, 0.
\<close>

lemma bisect_none_fits:
  assumes "\<forall>f. 0 \<le> f \<and> f \<le> 100 \<longrightarrow>
      \<not> fits (half_diagonal (getBBox \<lparr>textContent = w, font_family = family,
                font_weight = weight, font_size = f\<rparr>)) rad"
    and "ok s = 0" "0 \<le> ng s" "ng s \<le> 100"
  shows "ok (bisect getBBox w rad family weight s) = 0"
  using assms
proof (induction getBBox w rad family weight s rule: bisect.induct)
  case (1 getBBox w rad family weight s)
  let ?m = "(ok s + ng s) / 2"
  let ?t = "\<lparr>textContent = w, font_family = family, font_weight = weight, font_size = ?m\<rparr>"
  show ?case
  proof (cases "iter s < 10")
    case True
    have m: "0 \<le> ?m" "?m \<le> 100" using "1.prems"(2,3,4) by simp_all
    then have no: "\<not> fits (half_diagonal (getBBox ?t)) rad" using "1.prems"(1) by blast
    let ?s' = "s\<lparr>ng := ?m, iter := iter s + 1, measured := measured s @ [?t]\<rparr>"
    have step: "bisect getBBox w rad family weight s = bisect getBBox w rad family weight ?s'"
      using True no by (subst bisect_unfold) simp
    have "ok (bisect getBBox w rad family weight ?s') = 0"
      using "1.IH" [OF True refl refl refl] no "1.prems" m by simp
    then show ?thesis unfolding step .
  next
    case False
    then have "bisect getBBox w rad family weight s = s"
      by (subst bisect_unfold) simp
    then show ?thesis using "1.prems"(2) by simp
  qed
qed

lemma optimalFontSize_none_fits:
  assumes "\<forall>f. 0 \<le> f \<and> f \<le> 100 \<longrightarrow>
      \<not> fits (half_diagonal (getBBox \<lparr>textContent = w, font_family = attribute fam,
                font_weight = attribute wt, font_size = f\<rparr>)) rad"
  shows "fst (optimalFontSize getBBox w rad fam wt) = 0"
  using bisect_none_fits [OF assms, of "\<lparr>ok = 0, ng = 100, iter = 0, measured = []\<rparr>"]
  by (simp add: optimalFontSize_def fitting_def Let_def)

lemma bisect_measured:
  "length (measured (bisect getBBox w rad family weight s)) = length (measured s) + (10 - iter s) \<and>
   (\<forall>t \<in> set (measured (bisect getBBox w rad family weight s)).
      t \<in> set (measured s) \<or>
      textContent t = w \<and> font_family t = family \<and> font_weight t = weight)"
proof (induction getBBox w rad family weight s rule: bisect.induct)
  case (1 getBBox w rad family weight s)
  let ?m = "(ok s + ng s) / 2"
  let ?t = "\<lparr>textContent = w, font_family = family, font_weight = weight, font_size = ?m\<rparr>"
  let ?d = "half_diagonal (getBBox ?t)"
  show ?case
  proof (cases "iter s < 10")
    case True
    let ?s' = "if fits ?d rad
           then s\<lparr>ok := ?m, iter := iter s + 1, measured := measured s @ [?t]\<rparr>
           else s\<lparr>ng := ?m, iter := iter s + 1, measured := measured s @ [?t]\<rparr>"
    have step: "bisect getBBox w rad family weight s = bisect getBBox w rad family weight ?s'"
      using True by (subst bisect_unfold) simp
    have m': "measured ?s' = measured s @ [?t]" "iter ?s' = iter s + 1" by simp_all
    note ih = "1.IH" [OF True refl refl refl]
    have "length (measured (bisect getBBox w rad family weight ?s')) =
        length (measured ?s') + (10 - iter ?s')"
      using ih by (rule conjunct1)
    then have "length (measured (bisect getBBox w rad family weight ?s')) =
        length (measured s) + (10 - iter s)"
      using True unfolding m' by simp
    moreover have "t \<in> set (measured s) \<or>
        textContent t = w \<and> font_family t = family \<and> font_weight t = weight"
      if t: "t \<in> set (measured (bisect getBBox w rad family weight ?s'))" for t
    proof -
      have "t \<in> set (measured ?s') \<or>
          textContent t = w \<and> font_family t = family \<and> font_weight t = weight"
        using ih t by blast
      then show ?thesis unfolding m'(1) by auto
    qed
    ultimately show ?thesis unfolding step by blast
  next
    case False
    then have "bisect getBBox w rad family weight s = s"
      by (subst bisect_unfold) simp
    then show ?thesis using False by simp
  qed
qed

lemma optimalFontSize_requests:
  "length (snd (optimalFontSize getBBox w rad fam wt)) = 10 \<and>
   (\<forall>t \<in> set (snd (optimalFontSize getBBox w rad fam wt)).
      textContent t = w \<and> font_family t = attribute fam \<and> font_weight t = attribute wt)"
  using bisect_measured [of getBBox w rad "attribute fam" "attribute wt"
      "\<lparr>ok = 0, ng = 100, iter = 0, measured = []\<rparr>"]
  by (simp add: optimalFontSize_def fitting_def Let_def)

lemma bisect_decided:
  assumes "decided getBBox rad s"
  shows "decided getBBox rad (bisect getBBox w rad family weight s) \<and>
         iter (bisect getBBox w rad family weight s) = 10"
  using assms
proof (induction getBBox w rad family weight s rule: bisect.induct)
  case (1 getBBox w rad family weight s)
  let ?m = "(ok s + ng s) / 2"
  let ?t = "\<lparr>textContent = w, font_family = family, font_weight = weight, font_size = ?m\<rparr>"
  show ?case
  proof (cases "iter s < 10")
    case True
    let ?s' = "if fits (half_diagonal (getBBox ?t)) rad
           then s\<lparr>ok := ?m, iter := iter s + 1, measured := measured s @ [?t]\<rparr>
           else s\<lparr>ng := ?m, iter := iter s + 1, measured := measured s @ [?t]\<rparr>"
    have gap: "ng s - ok s = 100 / 2 ^ iter s" using "1.prems" by (simp add: decided_def)
    have half: "ng s - ?m = 100 / 2 ^ (iter s + 1)" "?m - ok s = 100 / 2 ^ (iter s + 1)"
      using gap by (simp_all add: field_simps)
    have "decided getBBox rad ?s'"
    proof (cases "fits (half_diagonal (getBBox ?t)) rad")
      case fit: True
      then show ?thesis using "1.prems" True half by (auto simp: decided_def)
    next
      case nofit: False
      then show ?thesis using "1.prems" True half by (auto simp: decided_def)
    qed
    then have "decided getBBox rad (bisect getBBox w rad family weight ?s') \<and>
        iter (bisect getBBox w rad family weight ?s') = 10"
      using "1.IH" [OF True refl refl refl] by simp
    moreover have "bisect getBBox w rad family weight s =
        bisect getBBox w rad family weight ?s'"
      using True by (subst bisect_unfold) simp
    ultimately show ?thesis by simp
  next
    case False
    then have "iter s = 10" using "1.prems" by (simp add: decided_def)
    moreover have "bisect getBBox w rad family weight s = s"
      using False by (subst bisect_unfold) simp
    ultimately show ?thesis using "1.prems" by simp
  qed
qed

lemma bisect_same_boxes:
  assumes "\<forall>t. font_family t = family \<and> font_weight t = weight \<longrightarrow> other t = getBBox t"
  shows "bisect other w rad family weight s = bisect getBBox w rad family weight s"
  using assms
proof (induction getBBox w rad family weight s rule: bisect.induct)
  case (1 getBBox w rad family weight s)
  let ?m = "(ok s + ng s) / 2"
  let ?t = "\<lparr>textContent = w, font_family = family, font_weight = weight, font_size = ?m\<rparr>"
  show ?case
  proof (cases "iter s < 10")
    case True
    let ?s' = "if fits (half_diagonal (getBBox ?t)) rad
           then s\<lparr>ok := ?m, iter := iter s + 1, measured := measured s @ [?t]\<rparr>
           else s\<lparr>ng := ?m, iter := iter s + 1, measured := measured s @ [?t]\<rparr>"
    have same: "other ?t = getBBox ?t" using "1.prems" by simp
    have "bisect other w rad family weight s = bisect other w rad family weight ?s'"
      using True same by (subst bisect_unfold) simp
    also have "\<dots> = bisect getBBox w rad family weight ?s'"
      using "1.IH" [OF True refl refl refl] "1.prems" by simp
    also have "\<dots> = bisect getBBox w rad family weight s"
      using True by (subst (2) bisect_unfold) simp
    finally show ?thesis .
  next
    case False
    then show ?thesis by (subst bisect_unfold, subst (2) bisect_unfold) simp
  qed
qed

lemma optimalFontSize_decided:
  "(fst (optimalFontSize getBBox w rad fam wt) = 0 \<or>
      (\<exists>t \<in> set (snd (optimalFontSize getBBox w rad fam wt)).
         font_size t = fst (optimalFontSize getBBox w rad fam wt) \<and>
         fits (half_diagonal (getBBox t)) rad)) \<and>
   (fst (optimalFontSize getBBox w rad fam wt) + 100 / 2 ^ 10 = 100 \<or>
      (\<exists>t \<in> set (snd (optimalFontSize getBBox w rad fam wt)).
         font_size t = fst (optimalFontSize getBBox w rad fam wt) + 100 / 2 ^ 10 \<and>
         \<not> fits (half_diagonal (getBBox t)) rad))"
proof -
  let ?s = "fitting getBBox w rad fam wt"
  have "decided getBBox rad \<lparr>ok = 0, ng = 100, iter = 0, measured = []\<rparr>"
    by (simp add: decided_def)
  then have d: "decided getBBox rad ?s" and n: "iter ?s = 10"
    unfolding fitting_def using bisect_decided by blast+
  have "ng ?s = ok ?s + 100 / 2 ^ 10" using d n by (simp add: decided_def)
  then show ?thesis using d by (simp add: optimalFontSize_def Let_def decided_def)
qed

text \<open>
  Claim C10. \<open>Chart\<close> renders one glyph per Word, in order, displayed with the family
  \<open>'Sawarabi Gothic', sans-serif\<close> and the weight \<open>normal\<close>. Its font size is the result
  of \<open>optimalFontSize\<close> called with the word and the radius only, and the 10 text elements
  that call measures carry the content of the Word and the attributes \<open>font-family\<close> and
  \<open>font-weight\<close> set from \<open>undefined\<close>, never the display font. The font size is decided
  by those measurements: unless it is 0 it is the size of a measured element that fits the
  radius, and unless it is within \<open>100 / 2^10\<close> of 100 the size \<open>100 / 2^10\<close> above it is
  that of a measured element that does not fit. So the boxes of elements with any other
  font, the display font among them, have no influence on the chart.
\<close>

theorem Chart_measures_without_font:
  "length (Chart getBBox words) = length words \<and>
   (\<forall>i < length words.
      \<exists>g requests.
        Chart getBBox words ! i = (g, requests) \<and>
        key g = word (words ! i) \<and> label g = word (words ! i) \<and>
        circle_r g = r (words ! i) \<and> fill g = group (words ! i) \<and>
        fontFamily g = display_fontFamily \<and> fontWeight g = display_fontWeight \<and>
        optimalFontSize getBBox (word (words ! i)) (r (words ! i)) None None
          = (fontSize g, requests) \<and>
        length requests = 10 \<and>
        (\<forall>t \<in> set requests.
           textContent t = word (words ! i) \<and>
           font_family t = ''undefined'' \<and> font_weight t = ''undefined'' \<and>
           font_family t \<noteq> fontFamily g \<and> font_weight t \<noteq> fontWeight g) \<and>
        (fontSize g = 0 \<or>
           (\<exists>t \<in> set requests. font_size t = fontSize g \<and>
              fits (half_diagonal (getBBox t)) (r (words ! i)))) \<and>
        (fontSize g + 100 / 2 ^ 10 = 100 \<or>
           (\<exists>t \<in> set requests. font_size t = fontSize g + 100 / 2 ^ 10 \<and>
              \<not> fits (half_diagonal (getBBox t)) (r (words ! i))))) \<and>
   (\<forall>other.
      (\<forall>t. font_family t = ''undefined'' \<and> font_weight t = ''undefined'' \<longrightarrow> other t = getBBox t)
      \<longrightarrow> Chart other words = Chart getBBox words)"
proof -
  have differ: "''undefined'' \<noteq> display_fontFamily" "''undefined'' \<noteq> display_fontWeight"
    by (simp_all add: display_fontFamily_def display_fontWeight_def)
  have each: "\<exists>g requests.
        Chart getBBox words ! i = (g, requests) \<and>
        key g = word (words ! i) \<and> label g = word (words ! i) \<and>
        circle_r g = r (words ! i) \<and> fill g = group (words ! i) \<and>
        fontFamily g = display_fontFamily \<and> fontWeight g = display_fontWeight \<and>
        optimalFontSize getBBox (word (words ! i)) (r (words ! i)) None None
          = (fontSize g, requests) \<and>
        length requests = 10 \<and>
        (\<forall>t \<in> set requests.
           textContent t = word (words ! i) \<and>
           font_family t = ''undefined'' \<and> font_weight t = ''undefined'' \<and>
           font_family t \<noteq> fontFamily g \<and> font_weight t \<noteq> fontWeight g) \<and>
        (fontSize g = 0 \<or>
           (\<exists>t \<in> set requests. font_size t = fontSize g \<and>
              fits (half_diagonal (getBBox t)) (r (words ! i)))) \<and>
        (fontSize g + 100 / 2 ^ 10 = 100 \<or>
           (\<exists>t \<in> set requests. font_size t = fontSize g + 100 / 2 ^ 10 \<and>
              \<not> fits (half_diagonal (getBBox t)) (r (words ! i))))"
    if i: "i < length words" for i
  proof -
    let ?w = "words ! i"
    let ?o = "optimalFontSize getBBox (word ?w) (r ?w) None None"
    let ?g = "\<lparr>key = word ?w, circle_r = r ?w, fill = group ?w, fontSize = fst ?o,
               fontFamily = display_fontFamily, fontWeight = display_fontWeight,
               label = word ?w\<rparr>"
    have c: "Chart getBBox words ! i = (?g, snd ?o)"
      using i by (simp add: Chart_def case_prod_unfold)
    note q = optimalFontSize_requests [of getBBox "word ?w" "r ?w" None None]
    note d = optimalFontSize_decided [of getBBox "word ?w" "r ?w" None None]
    have attrs: "\<forall>t \<in> set (snd ?o).
           textContent t = word ?w \<and>
           font_family t = ''undefined'' \<and> font_weight t = ''undefined'' \<and>
           font_family t \<noteq> fontFamily ?g \<and> font_weight t \<noteq> fontWeight ?g"
      using q differ by (simp add: attribute_def)
    have len: "length (snd ?o) = 10" using q by simp
    have fit: "fontSize ?g = 0 \<or>
           (\<exists>t \<in> set (snd ?o). font_size t = fontSize ?g \<and>
              fits (half_diagonal (getBBox t)) (r ?w))"
      using d by simp
    have nofit: "fontSize ?g + 100 / 2 ^ 10 = 100 \<or>
           (\<exists>t \<in> set (snd ?o). font_size t = fontSize ?g + 100 / 2 ^ 10 \<and>
              \<not> fits (half_diagonal (getBBox t)) (r ?w))"
      using d by simp
    have "key ?g = word ?w \<and> label ?g = word ?w \<and> circle_r ?g = r ?w \<and> fill ?g = group ?w \<and>
        fontFamily ?g = display_fontFamily \<and> fontWeight ?g = display_fontWeight \<and>
        ?o = (fontSize ?g, snd ?o)"
      by simp
    then show ?thesis using c len attrs fit nofit by blast
  qed
  have same: "Chart other words = Chart getBBox words"
    if agree: "\<forall>t. font_family t = ''undefined'' \<and> font_weight t = ''undefined'' \<longrightarrow>
        other t = getBBox t" for other
  proof -
    have "optimalFontSize other w rad None None = optimalFontSize getBBox w rad None None"
      for w rad
      using bisect_same_boxes [of "''undefined''" "''undefined''" other getBBox] agree
      by (simp add: optimalFontSize_def fitting_def attribute_def)
    then show ?thesis by (simp add: Chart_def)
  qed
  have "length (Chart getBBox words) = length words" by (simp add: Chart_def)
  then show ?thesis using each same by blast
qed

text \<open>Witness for C10: the chart of one Word, a, of radius 18.\<close>

theorem Chart_measures_without_font_witness:
  "\<exists>g requests.
      Chart (\<lambda>t. (font_size t, font_size t))
        [\<lparr>word = ''a'', count = Number 2, x = 0, y = 0, x0 = 300, y0 = 150,
          group = Some 0, r = Some 18, index = Some 0, vx = Some 0, vy = Some 0\<rparr>] ! 0
        = (g, requests) \<and>
      optimalFontSize (\<lambda>t. (font_size t, font_size t)) ''a'' (Some 18) None None
        = (fontSize g, requests) \<and>
      length requests = 10 \<and> fontFamily g = display_fontFamily \<and>
      font_family (hd requests) = ''undefined'' \<and> font_family (hd requests) \<noteq> fontFamily g"
proof -
  let ?box = "\<lambda>t :: svg_text. (font_size t, font_size t)"
  let ?words = "[\<lparr>word = ''a'', count = Number 2, x = 0, y = 0, x0 = 300, y0 = 150,
                  group = Some 0, r = Some 18, index = Some 0, vx = Some 0, vy = Some 0\<rparr>]"
  have i: "(0::nat) < length ?words" by simp
  note each = Chart_measures_without_font [of ?box ?words, THEN conjunct2, THEN conjunct1,
      rule_format, OF i]
  obtain g requests where c: "Chart ?box ?words ! 0 = (g, requests)"
    and o: "optimalFontSize ?box (word (?words ! 0)) (r (?words ! 0)) None None
        = (fontSize g, requests)"
    and f: "fontFamily g = display_fontFamily"
    and len: "length requests = 10"
    and attrs: "\<forall>t \<in> set requests.
           textContent t = word (?words ! 0) \<and>
           font_family t = ''undefined'' \<and> font_weight t = ''undefined'' \<and>
           font_family t \<noteq> fontFamily g \<and> font_weight t \<noteq> fontWeight g"
    using each by blast
  have "requests \<noteq> []" using len by auto
  then have "hd requests \<in> set requests" by simp
  then have "font_family (hd requests) = ''undefined''"
    "font_family (hd requests) \<noteq> fontFamily g"
    using attrs by blast+
  moreover have "optimalFontSize ?box ''a'' (Some 18) None None = (fontSize g, requests)"
    using o by simp
  ultimately show ?thesis using c f len by blast
qed

end
